theory Spec2Isabelle
  imports Complex_Main
begin

section \<open>Binokub 9: the game session of \<open>src/App.tsx\<close>\<close>

text \<open>
  The React component \<open>App\<close> keeps the game in a handful of \<open>useState\<close> cells and
  changes them in event handlers. Each handler reads the state of the current render and
  queues new values; the model is explicit state passing: a handler is a function from the
  session record to the next session record.

  \<^item> Numbers that hold tile values are \<open>int\<close>; indices and counters are \<open>nat\<close>.
  \<^item> Reading a property of \<open>undefined\<close> (a grid indexed outside its rows or columns)
    throws a \<open>TypeError\<close> in the source; the handlers return \<open>error + Session\<close>.
  \<^item> \<open>playSound\<close> is an external collaborator; the session keeps the list of the sounds
    that were requested, oldest first.
  \<^item> \<open>Math.random\<close> is an argument of the operation that draws.
\<close>

subsection \<open>Data model\<close>

record TileData =
  tile_value :: int
  tile_base :: int

datatype CellStatus = Empty | Correct | Incorrect

record BoardCell =
  tile :: "TileData option"
  status :: CellStatus
  isHint :: bool

datatype Phase = Placing | Final_challenge | Won

datatype SoundType = Snd_correct | Snd_incorrect | Snd_hint | Snd_win | Snd_click | Snd_return

datatype error =
  TypeError
  | UndefinedValue

type_synonym Board = "BoardCell list list"

text \<open>
  The state cells of \<open>App\<close> that the game reads or writes. \<open>timerRunning\<close> stands for
  the timer of \<open>useGameTimer\<close>, whose source is absent: \<open>startTimer\<close> sets it,
  \<open>stopTimer\<close> clears it. \<open>sounds\<close> is the list of the calls of \<open>playSound\<close>.
  Difficulty, theme, language and the instructions dialogue are left out: no handler of
  the game reads them.
\<close>

record Session =
  solution :: "int list list"
  boardState :: Board
  paletteTiles :: "TileData list"
  draggedTile :: "TileData option"
  correctTilesCount :: nat
  hintsUsed :: nat
  gamePhase :: Phase
  blinkingCell :: "(nat \<times> nat) option"
  finalCodeAnswer :: "int option"
  finalCodeInput :: string
  challengeShake :: bool
  timerRunning :: bool
  sounds :: "SoundType list"

text \<open>
  Modelled from the spec: \<open>constants.ts\<close> is not among the sources; the spec fixes the
  grid at 9 by 9.
\<close>

definition GRID_SIZE :: nat where
  "GRID_SIZE = 9"

text \<open>
  Modelled from the spec: \<open>lib/game.ts\<close> is not among the sources; the spec gives
  \<open>base(v) = floor((v - 1) / 9) + 1\<close>. On \<open>int\<close>, \<open>div\<close> rounds down as
  \<open>Math.floor\<close> does.
\<close>

definition calculateBase :: "int \<Rightarrow> int" where
  "calculateBase v = (v - 1) div 9 + 1"

subsection \<open>Reading the grids\<close>

definition bindE :: "error + 'a \<Rightarrow> ('a \<Rightarrow> error + 'b) \<Rightarrow> error + 'b" where
  "bindE m f = (case m of Inl e \<Rightarrow> Inl e | Inr x \<Rightarrow> f x)"

text \<open>
  \<open>boardState[r][c]\<close> followed by a property read: outside the rows \<open>boardState[r]\<close> is
  \<open>undefined\<close> and indexing it throws; outside the columns the cell is \<open>undefined\<close> and
  reading \<open>.tile\<close> or \<open>.status\<close> throws.
\<close>

definition cellAt :: "Board \<Rightarrow> nat \<Rightarrow> nat \<Rightarrow> error + BoardCell" where
  "cellAt b r c =
     (if r < length b \<and> c < length (b ! r) then Inr (b ! r ! c) else Inl TypeError)"

text \<open>
  \<open>solution[r][c]\<close>: outside the rows it throws; outside the columns it is the value
  \<open>undefined\<close>, here \<open>Inr None\<close>.
\<close>

definition solutionAt :: "int list list \<Rightarrow> nat \<Rightarrow> nat \<Rightarrow> error + int option" where
  "solutionAt sol r c =
     (if r < length sol
      then Inr (if c < length (sol ! r) then Some (sol ! r ! c) else None)
      else Inl TypeError)"

text \<open>\<open>newBoardState[r][c] = cell\<close> on the copy of the board.\<close>

definition setCell :: "Board \<Rightarrow> nat \<Rightarrow> nat \<Rightarrow> BoardCell \<Rightarrow> Board" where
  "setCell b r c cell = b[r := (b ! r)[c := cell]]"

definition emptyCell :: BoardCell where
  "emptyCell = \<lparr>tile = None, status = Empty, isHint = False\<rparr>"

definition playSound :: "SoundType \<Rightarrow> Session \<Rightarrow> Session" where
  "playSound sound s = s\<lparr>sounds := sounds s @ [sound]\<rparr>"

definition isUIInteractive :: "Session \<Rightarrow> bool" where
  "isUIInteractive s = (gamePhase s = Placing)"

subsection \<open>New game\<close>

definition initializeBoard :: Board where
  "initializeBoard = replicate GRID_SIZE (replicate GRID_SIZE emptyCell)"

text \<open>
  \<open>generateGameData\<close> is not among the sources: its two results are arguments.
  \<open>newGame\<close> leaves \<open>draggedTile\<close> and \<open>challengeShake\<close> as they are.
\<close>

definition newGame :: "int list list \<Rightarrow> TileData list \<Rightarrow> Session \<Rightarrow> Session" where
  "newGame solutionGrid shuffledTiles s =
     s\<lparr>solution := solutionGrid,
       paletteTiles := shuffledTiles,
       boardState := initializeBoard,
       gamePhase := Placing,
       correctTilesCount := 0,
       hintsUsed := 0,
       blinkingCell := None,
       finalCodeAnswer := None,
       finalCodeInput := [],
       timerRunning := True\<rparr>"

text \<open>The state of the first render, before the first \<open>newGame\<close> has run.\<close>

definition initialSession :: Session where
  "initialSession =
     \<lparr>solution = [], boardState = [], paletteTiles = [], draggedTile = None,
      correctTilesCount = 0, hintsUsed = 0, gamePhase = Placing, blinkingCell = None,
      finalCodeAnswer = None, finalCodeInput = [], challengeShake = False,
      timerRunning = False, sounds = []\<rparr>"

subsection \<open>Dragging a palette tile and dropping it on a cell\<close>

definition handleDragStart :: "TileData \<Rightarrow> Session \<Rightarrow> Session" where
  "handleDragStart t s = (if \<not> isUIInteractive s then s else s\<lparr>draggedTile := Some t\<rparr>)"

text \<open>
  One of the four neighbour tests of \<open>handleDrop\<close>: under its index guard, an occupied
  neighbour must hold the expected value. The result is whether the test leaves
  \<open>isSequenceValid\<close> alone.
\<close>

definition neighbourOk :: "bool \<Rightarrow> Board \<Rightarrow> nat \<Rightarrow> nat \<Rightarrow> int \<Rightarrow> error + bool" where
  "neighbourOk guard b r c expected =
     (if \<not> guard then Inr True
      else bindE (cellAt b r c) (\<lambda>cell.
        case tile cell of
          None \<Rightarrow> Inr True
        | Some t \<Rightarrow> Inr (tile_value t = expected)))"

definition isSequenceValid :: "Board \<Rightarrow> nat \<Rightarrow> nat \<Rightarrow> int \<Rightarrow> error + bool" where
  "isSequenceValid b row col v =
     bindE (neighbourOk (row > 0) b (row - 1) col (v - 9)) (\<lambda>up.
     bindE (neighbourOk (row < GRID_SIZE - 1) b (row + 1) col (v + 9)) (\<lambda>down.
     bindE (neighbourOk (col > 0) b row (col - 1) (v - 1)) (\<lambda>left.
     bindE (neighbourOk (col < GRID_SIZE - 1) b row (col + 1) (v + 1)) (\<lambda>right.
       Inr (up \<and> down \<and> left \<and> right)))))"

text \<open>
  \<open>handleDrop\<close>, lines 130 to 176. The first guard returns without a sound when the
  phase is not \<open>placing\<close>, when no tile is held, or when the target cell is occupied;
  the cell is read only when the first two tests have failed. The base test and the
  sequence test return after \<open>playSound('incorrect')\<close>. \<open>solution[row][col]\<close> may be
  \<open>undefined\<close>, which is equal to no tile value.
\<close>

definition handleDrop :: "nat \<Rightarrow> nat \<Rightarrow> Session \<Rightarrow> error + Session" where
  "handleDrop row col s =
     (if \<not> isUIInteractive s then Inr s
      else case draggedTile s of
        None \<Rightarrow> Inr s
      | Some dt \<Rightarrow>
          bindE (cellAt (boardState s) row col) (\<lambda>target.
            if tile target \<noteq> None then Inr s
            else if tile_base dt \<noteq> int col + 1 then Inr (playSound Snd_incorrect s)
            else bindE (isSequenceValid (boardState s) row col (tile_value dt)) (\<lambda>valid.
              if \<not> valid then Inr (playSound Snd_incorrect s)
              else bindE (solutionAt (solution s) row col) (\<lambda>sv.
                let isCorrectPosition = (sv = Some (tile_value dt));
                    newBoardState = setCell (boardState s) row col
                      \<lparr>tile = Some dt,
                       status = (if isCorrectPosition then Correct else Incorrect),
                       isHint = False\<rparr>;
                    s1 = s\<lparr>boardState := newBoardState,
                           paletteTiles :=
                             filter (\<lambda>t. tile_value t \<noteq> tile_value dt) (paletteTiles s)\<rparr>;
                    s2 = (if isCorrectPosition
                          then (playSound Snd_correct s1)
                                 \<lparr>correctTilesCount := correctTilesCount s1 + 1\<rparr>
                          else playSound Snd_incorrect s1)
                in Inr (s2\<lparr>draggedTile := None\<rparr>)))))"

subsection \<open>Dragging a tile off the board\<close>

text \<open>
  \<open>GameBoard\<close> calls \<open>onTileReturn(cell.tile, rowIndex, colIndex)\<close> when the drag of a
  placed tile starts. \<open>hasDependentTile\<close> is a JavaScript \<open>||\<close> of two \<open>&&\<close>: the second
  disjunct is read only when the first is falsy.
\<close>

definition occupied :: "bool \<Rightarrow> Board \<Rightarrow> nat \<Rightarrow> nat \<Rightarrow> error + bool" where
  "occupied guard b r c =
     (if \<not> guard then Inr False
      else bindE (cellAt b r c) (\<lambda>cell. Inr (tile cell \<noteq> None)))"

definition hasDependentTile :: "Board \<Rightarrow> nat \<Rightarrow> nat \<Rightarrow> error + bool" where
  "hasDependentTile b fromRow fromCol =
     bindE (occupied (fromRow < GRID_SIZE - 1) b (fromRow + 1) fromCol) (\<lambda>below.
       if below then Inr True
       else occupied (fromCol < GRID_SIZE - 1) b fromRow (fromCol + 1))"

definition handleTileReturn :: "TileData \<Rightarrow> nat \<Rightarrow> nat \<Rightarrow> Session \<Rightarrow> error + Session" where
  "handleTileReturn t fromRow fromCol s =
     (if \<not> isUIInteractive s then Inr s
      else bindE (cellAt (boardState s) fromRow fromCol) (\<lambda>cell.
        if status cell = Correct then Inr s
        else bindE (hasDependentTile (boardState s) fromRow fromCol) (\<lambda>dep.
          if dep then Inr (playSound Snd_incorrect s)
          else Inr ((playSound Snd_return s)
                 \<lparr>boardState := setCell (boardState s) fromRow fromCol emptyCell,
                  paletteTiles := paletteTiles s @ [t]\<rparr>))))"

subsection \<open>Hint\<close>

text \<open>
  \<open>unsolvedCells\<close>: the two nested \<open>forEach\<close> visit every cell the board has, row by row,
  and keep the coordinates of those whose status is not \<open>correct\<close>.
\<close>

definition unsolvedInRow :: "nat \<Rightarrow> BoardCell list \<Rightarrow> (nat \<times> nat) list" where
  "unsolvedInRow r row =
     map (\<lambda>c. (r, c)) (filter (\<lambda>c. status (row ! c) \<noteq> Correct) [0..<length row])"

definition unsolvedCells :: "Board \<Rightarrow> (nat \<times> nat) list" where
  "unsolvedCells b = concat (map (\<lambda>r. unsolvedInRow r (b ! r)) [0..<length b])"

text \<open>
  The search for the correct value on the board: \<open>r\<close> and \<open>c\<close> run over
  \<open>0 .. GRID_SIZE - 1\<close> whatever the size of the board, and the search stops at the first
  cell whose tile has the value. The result is that cell's position.
\<close>

fun findInRow :: "Board \<Rightarrow> int \<Rightarrow> nat \<Rightarrow> nat list \<Rightarrow> error + nat option" where
  "findInRow b v r [] = Inr None"
| "findInRow b v r (c # cs) =
     bindE (cellAt b r c) (\<lambda>cell.
       if map_option tile_value (tile cell) = Some v then Inr (Some c)
       else findInRow b v r cs)"

fun findOnBoard :: "Board \<Rightarrow> int \<Rightarrow> nat list \<Rightarrow> error + (nat \<times> nat) option" where
  "findOnBoard b v [] = Inr None"
| "findOnBoard b v (r # rs) =
     bindE (findInRow b v r [0..<GRID_SIZE]) (\<lambda>found.
       case found of
         Some c \<Rightarrow> Inr (Some (r, c))
       | None \<Rightarrow> findOnBoard b v rs)"

text \<open>
  Lines 212 to 243 of \<open>handleHint\<close>: what is done once the cell
  \<open>(hintRow, hintCol)\<close> has been drawn. Where \<open>solution[hintRow][hintCol]\<close> is
  \<open>undefined\<close> the source goes on with a tile whose value is \<open>undefined\<close>, which
  \<open>TileData\<close> excludes; the model stops there with \<open>UndefinedValue\<close>.
\<close>

definition placeHint :: "nat \<Rightarrow> nat \<Rightarrow> Session \<Rightarrow> error + Session" where
  "placeHint hintRow hintCol s =
     bindE (solutionAt (solution s) hintRow hintCol) (\<lambda>sv.
       case sv of
         None \<Rightarrow> Inl UndefinedValue
       | Some correctValue \<Rightarrow>
           let correctTileData =
                 \<lparr>tile_value = correctValue, tile_base = calculateBase correctValue\<rparr>
           in bindE (cellAt (boardState s) hintRow hintCol) (\<lambda>target.
                let pal1 = (case tile target of
                              None \<Rightarrow> paletteTiles s
                            | Some tileAtTarget \<Rightarrow> paletteTiles s @ [tileAtTarget])
                in bindE (findOnBoard (boardState s) correctValue [0..<GRID_SIZE])
                     (\<lambda>found.
                       let board1 = (case found of
                                       None \<Rightarrow> boardState s
                                     | Some (r, c) \<Rightarrow> setCell (boardState s) r c emptyCell);
                           pal2 = (case found of
                                     None \<Rightarrow>
                                       filter (\<lambda>t. tile_value t \<noteq> correctValue) pal1
                                   | Some _ \<Rightarrow> pal1)
                       in bindE (cellAt board1 hintRow hintCol) (\<lambda>target1.
                            let count1 = (if status target1 \<noteq> Correct
                                          then correctTilesCount s + 1
                                          else correctTilesCount s);
                                board2 = setCell board1 hintRow hintCol
                                  \<lparr>tile = Some correctTileData, status = Correct,
                                   isHint = True\<rparr>
                            in Inr (s\<lparr>boardState := board2,
                                      paletteTiles := pal2,
                                      correctTilesCount := count1,
                                      hintsUsed := hintsUsed s + 1\<rparr>)))))"

text \<open>
  The argument \<open>k\<close> stands for the draw \<open>Math.random()\<close>:
  \<open>Math.floor(Math.random() * n)\<close> is an index below \<open>n\<close>, here \<open>k mod n\<close>.
  \<open>playSound\<close> touches the sound list only, so the rest of the handler reads the
  same board, palette and counters after it as before.
\<close>

definition handleHint :: "nat \<Rightarrow> Session \<Rightarrow> error + Session" where
  "handleHint k s =
     (if \<not> isUIInteractive s then Inr s
      else
        let s0 = playSound Snd_hint s;
            unsolved = unsolvedCells (boardState s)
        in if length unsolved = 0 then Inr s0
           else
             let (hintRow, hintCol) = unsolved ! (k mod length unsolved)
             in placeHint hintRow hintCol s0)"

subsection \<open>The final challenge\<close>

text \<open>
  The effect that watches \<open>correctTilesCount\<close> and \<open>gamePhase\<close>. \<open>rr\<close> and \<open>rc\<close> stand
  for its two draws. An \<open>undefined\<close> \<open>finalNumber\<close> would reach \<open>calculateBase\<close>, whose
  source is absent; the model stops there with \<open>UndefinedValue\<close>.
\<close>

definition phaseEffect :: "nat \<Rightarrow> nat \<Rightarrow> Session \<Rightarrow> error + Session" where
  "phaseEffect rr rc s =
     (if gamePhase s = Placing \<and> correctTilesCount s = GRID_SIZE * GRID_SIZE
         \<and> correctTilesCount s > 0
      then
        let randomRow = rr mod GRID_SIZE;
            randomCol = rc mod GRID_SIZE
        in bindE (solutionAt (solution s) randomRow randomCol) (\<lambda>sv.
             case sv of
               None \<Rightarrow> Inl UndefinedValue
             | Some finalNumber \<Rightarrow>
                 Inr ((playSound Snd_win s)
                        \<lparr>timerRunning := False,
                         blinkingCell := Some (randomRow, randomCol),
                         finalCodeAnswer := Some (calculateBase finalNumber),
                         gamePhase := Final_challenge\<rparr>))
      else Inr s)"

text \<open>
  \<open>parseInt(text, 10)\<close>: leading white space is skipped, one sign is read, then the
  longest run of decimal digits; no digit gives \<open>NaN\<close>, here \<open>None\<close>. What follows the
  digits is ignored. The white space recognised here is the ASCII part of the
  JavaScript set; the result is the exact integer.
\<close>

definition isWhiteSpace :: "char \<Rightarrow> bool" where
  "isWhiteSpace ch = (ch \<in> set [CHR 0x09, CHR 0x0A, CHR 0x0B, CHR 0x0C, CHR 0x0D, CHR '' ''])"

definition isDigit :: "char \<Rightarrow> bool" where
  "isDigit ch = (48 \<le> (of_char ch :: nat) \<and> (of_char ch :: nat) \<le> 57)"

definition digitsValue :: "string \<Rightarrow> int" where
  "digitsValue ds = foldl (\<lambda>acc ch. acc * 10 + (int (of_char ch) - 48)) 0 ds"

definition parseDigits :: "string \<Rightarrow> int option" where
  "parseDigits cs =
     (let ds = takeWhile isDigit cs
      in if ds = [] then None else Some (digitsValue ds))"

definition parseInt :: "string \<Rightarrow> int option" where
  "parseInt text =
     (case dropWhile isWhiteSpace text of
        [] \<Rightarrow> None
      | ch # rest \<Rightarrow>
          if ch = CHR ''-'' then map_option uminus (parseDigits rest)
          else if ch = CHR ''+'' then parseDigits rest
          else parseDigits (ch # rest))"

text \<open>
  \<open>answer === finalCodeAnswer\<close>: \<open>NaN\<close> is equal to nothing and a number is not
  \<open>null\<close>. The timer that ends the shake half a second later is \<open>shakeTimeout\<close>.
\<close>

definition handleFinalCodeSubmit :: "Session \<Rightarrow> Session" where
  "handleFinalCodeSubmit s =
     (let answer = parseInt (finalCodeInput s)
      in if answer \<noteq> None \<and> answer = finalCodeAnswer s
         then (playSound Snd_win s)\<lparr>gamePhase := Won, blinkingCell := None\<rparr>
         else (playSound Snd_incorrect s)\<lparr>challengeShake := True, finalCodeInput := []\<rparr>)"

definition shakeTimeout :: "Session \<Rightarrow> Session" where
  "shakeTimeout s = s\<lparr>challengeShake := False\<rparr>"

text \<open>The input's \<open>onChange\<close>: \<open>setFinalCodeInput(e.target.value.slice(0, 1))\<close>.\<close>

definition changeFinalCodeInput :: "string \<Rightarrow> Session \<Rightarrow> Session" where
  "changeFinalCodeInput text s = s\<lparr>finalCodeInput := take 1 text\<rparr>"

subsection \<open>Events\<close>

text \<open>
  Every handler of \<open>App\<close> that writes game state, \<open>newGame\<close> apart. After the handler
  React renders and runs the effect.
\<close>

datatype event =
  DragStart TileData
  | Drop nat nat
  | TileReturn TileData nat nat
  | Hint nat
  | FinalCodeSubmit
  | FinalCodeChange string
  | ShakeTimeout

fun handle :: "event \<Rightarrow> Session \<Rightarrow> error + Session" where
  "handle (DragStart t) s = Inr (handleDragStart t s)"
| "handle (Drop row col) s = handleDrop row col s"
| "handle (TileReturn t fromRow fromCol) s = handleTileReturn t fromRow fromCol s"
| "handle (Hint k) s = handleHint k s"
| "handle FinalCodeSubmit s = Inr (handleFinalCodeSubmit s)"
| "handle (FinalCodeChange text) s = Inr (changeFinalCodeInput text s)"
| "handle ShakeTimeout s = Inr (shakeTimeout s)"

definition step :: "nat \<Rightarrow> nat \<Rightarrow> event \<Rightarrow> Session \<Rightarrow> error + Session" where
  "step rr rc e s = bindE (handle e s) (phaseEffect rr rc)"

subsection \<open>Vocabulary of the specification\<close>

text \<open>
  The handlers above follow the source. The definitions below follow the words of the
  specification and are what the theorems compare the handlers with.
\<close>

text \<open>A grid as \<open>initializeBoard\<close> builds it: \<open>GRID_SIZE\<close> rows of \<open>GRID_SIZE\<close> cells.\<close>

definition wf_grid :: "'a list list \<Rightarrow> bool" where
  "wf_grid g = (length g = GRID_SIZE \<and> list_all (\<lambda>row. length row = GRID_SIZE) g)"

definition holdsValue :: "BoardCell \<Rightarrow> int \<Rightarrow> bool" where
  "holdsValue cell v = (map_option tile_value (tile cell) = Some v)"

definition holdsOrEmpty :: "BoardCell \<Rightarrow> int \<Rightarrow> bool" where
  "holdsOrEmpty cell v = (case tile cell of None \<Rightarrow> True | Some n \<Rightarrow> tile_value n = v)"

text \<open>
  The sequence rule in the specification's words: an occupied neighbour above holds
  the value minus 9, below plus 9, to the left minus 1, to the right plus 1.
\<close>

definition spec_deltasRespected :: "Board \<Rightarrow> nat \<Rightarrow> nat \<Rightarrow> int \<Rightarrow> bool" where
  "spec_deltasRespected b row col v =
     ((row > 0 \<longrightarrow> holdsOrEmpty (b ! (row - 1) ! col) (v - 9)) \<and>
      (row + 1 < GRID_SIZE \<longrightarrow> holdsOrEmpty (b ! (row + 1) ! col) (v + 9)) \<and>
      (col > 0 \<longrightarrow> holdsOrEmpty (b ! row ! (col - 1)) (v - 1)) \<and>
      (col + 1 < GRID_SIZE \<longrightarrow> holdsOrEmpty (b ! row ! (col + 1)) (v + 1)))"

text \<open>A dependent tile: an occupied cell at \<open>(row + 1, col)\<close> or \<open>(row, col + 1)\<close>.\<close>

definition spec_hasDependent :: "Board \<Rightarrow> nat \<Rightarrow> nat \<Rightarrow> bool" where
  "spec_hasDependent b row col =
     ((row + 1 < GRID_SIZE \<and> tile (b ! (row + 1) ! col) \<noteq> None) \<or>
      (col + 1 < GRID_SIZE \<and> tile (b ! row ! (col + 1)) \<noteq> None))"

text \<open>The first cell, row by row, that holds a value.\<close>

definition gridPositions :: "(nat \<times> nat) list" where
  "gridPositions = List.product [0..<GRID_SIZE] [0..<GRID_SIZE]"

definition spec_firstHolder :: "Board \<Rightarrow> int \<Rightarrow> (nat \<times> nat) option" where
  "spec_firstHolder b v = find (\<lambda>(r, c). holdsValue (b ! r ! c) v) gridPositions"

text \<open>The number of cells whose status is \<open>correct\<close>.\<close>

definition correctCells :: "Board \<Rightarrow> nat" where
  "correctCells b = sum_list (map (\<lambda>row. length (filter (\<lambda>cell. status cell = Correct) row)) b)"

text \<open>How many board cells and how many palette entries hold a value.\<close>

definition boardCopies :: "int \<Rightarrow> Board \<Rightarrow> nat" where
  "boardCopies v b = length (filter (\<lambda>cell. holdsValue cell v) (concat b))"

definition paletteCopies :: "int \<Rightarrow> TileData list \<Rightarrow> nat" where
  "paletteCopies v pal = length (filter (\<lambda>t. tile_value t = v) pal)"

text \<open>Statuses agree with the solution: a cell is \<open>correct\<close> exactly when it holds the
  solution's value for its place.\<close>

definition consistent :: "Session \<Rightarrow> bool" where
  "consistent s =
     list_all (\<lambda>(r, c).
        (status (boardState s ! r ! c) = Correct) =
        holdsValue (boardState s ! r ! c) (solution s ! r ! c)) gridPositions"

text \<open>
  The invariant behind the counter: both grids are 9 by 9, the solution's 81 values are
  pairwise distinct, statuses agree with the solution, and the counter is the number of
  \<open>correct\<close> cells.
\<close>

definition counter_inv :: "Session \<Rightarrow> bool" where
  "counter_inv s =
     (wf_grid (boardState s) \<and> wf_grid (solution s) \<and> distinct (concat (solution s))
      \<and> consistent s \<and> correctTilesCount s = correctCells (boardState s))"

text \<open>
  The invariant behind the phase: the counter is never below the number of \<open>correct\<close>
  cells; while placing it is below 81 and no final code is set; afterwards it is 81.
\<close>

definition placing_inv :: "Session \<Rightarrow> bool" where
  "placing_inv s =
     (wf_grid (boardState s) \<and> wf_grid (solution s)
      \<and> correctCells (boardState s) \<le> correctTilesCount s
      \<and> (if gamePhase s = Placing
          then correctTilesCount s < GRID_SIZE * GRID_SIZE \<and> finalCodeAnswer s = None
          else correctTilesCount s = GRID_SIZE * GRID_SIZE))"

text \<open>Every cell that is \<open>correct\<close> on the first board is the same cell on the
  second.\<close>

definition lockedKept :: "Board \<Rightarrow> Board \<Rightarrow> bool" where
  "lockedKept b b' =
     list_all (\<lambda>(r, c). status (b ! r ! c) = Correct \<longrightarrow> b' ! r ! c = b ! r ! c)
       gridPositions"

text \<open>Running events one after the other; the first exception ends the run.\<close>

fun run :: "nat \<Rightarrow> nat \<Rightarrow> event list \<Rightarrow> Session \<Rightarrow> error + Session" where
  "run rr rc [] s = Inr s"
| "run rr rc (e # es) s = bindE (step rr rc e s) (run rr rc es)"

text \<open>Typing a guess and submitting it, for each guess of a list in turn.\<close>

fun attempts :: "string list \<Rightarrow> Session \<Rightarrow> Session" where
  "attempts [] s = s"
| "attempts (g # gs) s = attempts gs (handleFinalCodeSubmit (changeFinalCodeInput g s))"

subsection \<open>A sample session\<close>

text \<open>
  The grid \<open>solution[r][c] = c * 9 + r + 1\<close> that the specification names, the 81 tiles
  in ascending order, and a new game on them.
\<close>

definition sampleSolution :: "int list list" where
  "sampleSolution = map (\<lambda>r. map (\<lambda>c. int c * 9 + int r + 1) [0..<9]) [0..<9]"

definition sampleTiles :: "TileData list" where
  "sampleTiles = map (\<lambda>v. \<lparr>tile_value = v, tile_base = calculateBase v\<rparr>) [1..81]"

definition sampleSession :: Session where
  "sampleSession = newGame sampleSolution sampleTiles initialSession"

definition tile1 :: TileData where
  "tile1 = \<lparr>tile_value = 1, tile_base = 1\<rparr>"

definition tile10 :: TileData where
  "tile10 = \<lparr>tile_value = 10, tile_base = 2\<rparr>"

definition tile2 :: TileData where
  "tile2 = \<lparr>tile_value = 2, tile_base = 1\<rparr>"

definition tile9 :: TileData where
  "tile9 = \<lparr>tile_value = 9, tile_base = 1\<rparr>"

text \<open>Tile 1 is being dragged over the empty board.\<close>

definition draggingSession :: Session where
  "draggingSession = handleDragStart tile1 sampleSession"

text \<open>
  Three tiles have been placed: 9 at (0, 0), in the wrong place; 10 to its right at
  (0, 1), in the right place; 1 at (5, 0), in the wrong place.
\<close>

definition placedBoard :: Board where
  "placedBoard =
     setCell (setCell (setCell initializeBoard
       0 0 \<lparr>tile = Some tile9, status = Incorrect, isHint = False\<rparr>)
       0 1 \<lparr>tile = Some tile10, status = Correct, isHint = False\<rparr>)
       5 0 \<lparr>tile = Some tile1, status = Incorrect, isHint = False\<rparr>"

definition placedSession :: Session where
  "placedSession =
     sampleSession
       \<lparr>boardState := placedBoard,
        paletteTiles := filter (\<lambda>t. tile_value t \<notin> {1, 9, 10}) sampleTiles,
        correctTilesCount := 1,
        sounds := [Snd_incorrect, Snd_correct, Snd_incorrect]\<rparr>"

text \<open>The same, with tile 2 being dragged.\<close>

definition placedDraggingSession :: Session where
  "placedDraggingSession = handleDragStart tile2 placedSession"

text \<open>
  The first hint on that board, with draw 0: the first unsolved cell is (0, 0), whose
  value 1 sits at (5, 0).
\<close>

definition hintedSession :: Session where
  "hintedSession =
     placedSession
       \<lparr>boardState :=
          setCell (setCell placedBoard 5 0 emptyCell)
            0 0 \<lparr>tile = Some tile1, status = Correct, isHint = True\<rparr>,
        paletteTiles := paletteTiles placedSession @ [tile9],
        correctTilesCount := 2,
        hintsUsed := 1,
        sounds := sounds placedSession @ [Snd_hint]\<rparr>"

text \<open>
  From there: tile 2 is picked up and dropped at (1, 0), where the tile above forbids
  it; the hinted tile at (0, 0) is dragged, which is refused; a second hint, with draw
  7, lands on (1, 0) and puts value 2 there.
\<close>

definition hintedTwiceSession :: Session where
  "hintedTwiceSession =
     hintedSession
       \<lparr>boardState :=
          setCell (boardState hintedSession)
            1 0 \<lparr>tile = Some tile2, status = Correct, isHint = True\<rparr>,
        paletteTiles := filter (\<lambda>t. tile_value t \<noteq> 2) (paletteTiles hintedSession),
        draggedTile := Some tile2,
        correctTilesCount := 3,
        hintsUsed := 2,
        sounds := sounds hintedSession @ [Snd_incorrect, Snd_hint]\<rparr>"

text \<open>
  Tile 1 was picked up and let go outside the board, a hint put value 1 at (0, 0),
  and the next drop, at (5, 0), put the tile still held in \<open>draggedTile\<close> there.
\<close>

definition duplicatedSession :: Session where
  "duplicatedSession =
     sampleSession
       \<lparr>boardState :=
          setCell (setCell initializeBoard
            0 0 \<lparr>tile = Some tile1, status = Correct, isHint = True\<rparr>)
            5 0 \<lparr>tile = Some tile1, status = Incorrect, isHint = False\<rparr>,
        paletteTiles := filter (\<lambda>t. tile_value t \<notin> {1, 9}) sampleTiles @ [tile9],
        correctTilesCount := 1,
        hintsUsed := 1,
        sounds := [Snd_incorrect, Snd_hint, Snd_return, Snd_incorrect]\<rparr>"

text \<open>
  The session as the 81st hint leaves it, before the effect has run: every cell holds
  its value as a hint.
\<close>

definition solvedBoard :: Board where
  "solvedBoard =
     map (map (\<lambda>v. \<lparr>tile = Some \<lparr>tile_value = v, tile_base = calculateBase v\<rparr>,
                     status = Correct, isHint = True\<rparr>)) sampleSolution"

definition solvedSession :: Session where
  "solvedSession =
     sampleSession
       \<lparr>boardState := solvedBoard,
        paletteTiles := [],
        correctTilesCount := 81,
        hintsUsed := 81,
        sounds := replicate 81 Snd_hint\<rparr>"

text \<open>The final challenge on it, with draws 4 and 7: the code is the base of 68.\<close>

definition challengeSession :: Session where
  "challengeSession =
     solvedSession
       \<lparr>gamePhase := Final_challenge,
        blinkingCell := Some (4, 7),
        finalCodeAnswer := Some 8,
        timerRunning := False,
        sounds := replicate 81 Snd_hint @ [Snd_win]\<rparr>"

section \<open>Properties\<close>

subsection \<open>Grids and lookups\<close>

lemma bindE_Inr [simp]: "bindE (Inr x) f = f x"
  by (simp add: bindE_def)

lemma bindE_Inl [simp]: "bindE (Inl e) f = Inl e"
  by (simp add: bindE_def)

lemma wf_grid_row: "wf_grid g \<Longrightarrow> r < GRID_SIZE \<Longrightarrow> length (g ! r) = GRID_SIZE"
  by (simp add: wf_grid_def list_all_length)

lemma wf_grid_length: "wf_grid g \<Longrightarrow> length g = GRID_SIZE"
  by (simp add: wf_grid_def)

lemma cellAt_wf:
  "wf_grid b \<Longrightarrow> r < GRID_SIZE \<Longrightarrow> c < GRID_SIZE \<Longrightarrow> cellAt b r c = Inr (b ! r ! c)"
  by (simp add: cellAt_def wf_grid_row wf_grid_length)

lemma solutionAt_wf:
  "wf_grid sol \<Longrightarrow> r < GRID_SIZE \<Longrightarrow> c < GRID_SIZE \<Longrightarrow>
   solutionAt sol r c = Inr (Some (sol ! r ! c))"
  by (simp add: solutionAt_def wf_grid_row wf_grid_length)

lemma setCell_same:
  "r < length b \<Longrightarrow> c < length (b ! r) \<Longrightarrow> setCell b r c x ! r ! c = x"
  by (simp add: setCell_def)

lemma setCell_other:
  "r < length b \<Longrightarrow> (r', c') \<noteq> (r, c) \<Longrightarrow> setCell b r c x ! r' ! c' = b ! r' ! c'"
  by (cases "r' = r") (auto simp: setCell_def)

lemma wf_grid_setCell: "wf_grid b \<Longrightarrow> wf_grid (setCell b r c x)"
proof -
  assume wf: "wf_grid b"
  have "length (setCell b r c x ! n) = GRID_SIZE" if "n < GRID_SIZE" for n
  proof (cases "n = r")
    case True
    with that wf show ?thesis
      by (simp add: setCell_def wf_grid_length wf_grid_row)
  next
    case False
    with that wf show ?thesis
      by (simp add: setCell_def wf_grid_row)
  qed
  with wf show ?thesis
    by (simp add: wf_grid_def list_all_length setCell_def)
qed

lemma wf_grid_initializeBoard: "wf_grid initializeBoard"
  by (simp add: wf_grid_def initializeBoard_def list_all_length)

lemma wf_grid_sampleSolution: "wf_grid sampleSolution"
  by (simp add: wf_grid_def sampleSolution_def GRID_SIZE_def list_all_length)

subsection \<open>The base of a value\<close>

text \<open>
  C9. For every value \<open>v\<close> from 1 to 81, \<open>calculateBase v\<close> is
  \<open>floor((v - 1) / 9) + 1\<close>, the floor taken over the reals, and lies between 1 and 9.
\<close>

theorem calculateBase_formula_range:
  "1 \<le> v \<and> v \<le> 81 \<Longrightarrow>
     calculateBase v = \<lfloor>(real_of_int v - 1) / 9\<rfloor> + 1
     \<and> 1 \<le> calculateBase v \<and> calculateBase v \<le> 9"
proof -
  assume a: "1 \<le> v \<and> v \<le> 81"
  have "\<lfloor>(real_of_int v - 1) / 9\<rfloor> = (v - 1) div 9"
    using floor_divide_of_int_eq [of "v - 1" 9, where ?'a = real] by simp
  moreover have "0 \<le> (v - 1) div 9" "(v - 1) div 9 \<le> 8"
    using a by presburger+
  ultimately show ?thesis
    by (simp add: calculateBase_def)
qed

theorem calculateBase_formula_range_witness:
  "(1::int) \<le> 42 \<and> (42::int) \<le> 81
     \<and> calculateBase 42 = \<lfloor>(real_of_int 42 - 1) / 9\<rfloor> + 1
     \<and> calculateBase 42 = 5"
  using calculateBase_formula_range [of 42] by (simp add: calculateBase_def)

subsection \<open>Placing a tile\<close>

lemma neighbourOk_wf:
  "wf_grid b \<Longrightarrow> (guard \<Longrightarrow> r < GRID_SIZE \<and> c < GRID_SIZE) \<Longrightarrow>
   neighbourOk guard b r c v = Inr (guard \<longrightarrow> holdsOrEmpty (b ! r ! c) v)"
  by (auto simp: neighbourOk_def cellAt_wf holdsOrEmpty_def split: option.splits)

text \<open>On a 9 by 9 board the four tests of the source compute the rule of the
  specification, and none of them throws.\<close>

lemma isSequenceValid_wf:
  assumes "wf_grid b" "row < GRID_SIZE" "col < GRID_SIZE"
  shows "isSequenceValid b row col v = Inr (spec_deltasRespected b row col v)"
proof -
  have up: "neighbourOk (row > 0) b (row - 1) col (v - 9) =
      Inr (row > 0 \<longrightarrow> holdsOrEmpty (b ! (row - 1) ! col) (v - 9))"
    using assms by (intro neighbourOk_wf) auto
  have down: "neighbourOk (row < GRID_SIZE - 1) b (row + 1) col (v + 9) =
      Inr (row < GRID_SIZE - 1 \<longrightarrow> holdsOrEmpty (b ! (row + 1) ! col) (v + 9))"
    using assms by (intro neighbourOk_wf) auto
  have left: "neighbourOk (col > 0) b row (col - 1) (v - 1) =
      Inr (col > 0 \<longrightarrow> holdsOrEmpty (b ! row ! (col - 1)) (v - 1))"
    using assms by (intro neighbourOk_wf) auto
  have right: "neighbourOk (col < GRID_SIZE - 1) b row (col + 1) (v + 1) =
      Inr (col < GRID_SIZE - 1 \<longrightarrow> holdsOrEmpty (b ! row ! (col + 1)) (v + 1))"
    using assms by (intro neighbourOk_wf) auto
  show ?thesis
    unfolding isSequenceValid_def up down left right
    by (simp add: spec_deltasRespected_def less_diff_conv)
qed

text \<open>
  C1. In the placing phase, with a tile being dragged over a 9 by 9 board: if the target
  cell is empty, the tile's base is \<open>col + 1\<close> and every occupied orthogonal neighbour
  respects the deltas, the drop is accepted. The cell then holds the tile, with status
  \<open>correct\<close> exactly when the solution has the tile's value there and \<open>incorrect\<close>
  otherwise; no other cell changes; every palette entry with the tile's value is gone;
  the counter goes up by one exactly when the status is \<open>correct\<close>.
\<close>

theorem handleDrop_accepts:
  assumes "gamePhase s = Placing" and "draggedTile s = Some t"
    and "wf_grid (boardState s)" and "wf_grid (solution s)"
    and "row < GRID_SIZE" and "col < GRID_SIZE"
    and "tile (boardState s ! row ! col) = None"
    and "tile_base t = int col + 1"
    and "spec_deltasRespected (boardState s) row col (tile_value t)"
  shows "\<exists>s'. handleDrop row col s = Inr s'
     \<and> boardState s' ! row ! col =
         \<lparr>tile = Some t,
          status = (if solution s ! row ! col = tile_value t then Correct else Incorrect),
          isHint = False\<rparr>
     \<and> (\<forall>r c. (r, c) \<noteq> (row, col) \<longrightarrow> boardState s' ! r ! c = boardState s ! r ! c)
     \<and> paletteTiles s' = filter (\<lambda>p. tile_value p \<noteq> tile_value t) (paletteTiles s)
     \<and> t \<notin> set (paletteTiles s')
     \<and> correctTilesCount s' =
         (if solution s ! row ! col = tile_value t
          then correctTilesCount s + 1 else correctTilesCount s)
     \<and> sounds s' = sounds s @
         [if solution s ! row ! col = tile_value t then Snd_correct else Snd_incorrect]
     \<and> draggedTile s' = None \<and> gamePhase s' = gamePhase s \<and> solution s' = solution s
     \<and> hintsUsed s' = hintsUsed s"
proof -
  have len: "row < length (boardState s)" "col < length (boardState s ! row)"
    using assms by (simp_all add: wf_grid_length wf_grid_row)
  show ?thesis
    using assms len
    by (simp add: handleDrop_def isUIInteractive_def cellAt_wf isSequenceValid_wf
        solutionAt_wf Let_def playSound_def setCell_same setCell_other)
qed

lemma placedSession_reached:
  "run 0 0 [DragStart tile9, Drop 0 0, DragStart tile10, Drop 0 1, DragStart tile1, Drop 5 0]
     sampleSession = Inr placedSession"
  by code_simp

text \<open>
  Scenario 1 of the specification: on the empty board, tile 1 dropped at (0, 0), where
  the sample solution has 1, is accepted with status \<open>correct\<close> and the counter is 1.
\<close>

theorem handleDrop_accepts_witness:
  "gamePhase draggingSession = Placing \<and> draggedTile draggingSession = Some tile1
   \<and> wf_grid (boardState draggingSession) \<and> wf_grid (solution draggingSession)
   \<and> (0::nat) < GRID_SIZE
   \<and> tile (boardState draggingSession ! 0 ! 0) = None
   \<and> tile_base tile1 = int 0 + 1
   \<and> spec_deltasRespected (boardState draggingSession) 0 0 (tile_value tile1)
   \<and> (\<exists>s'. handleDrop 0 0 draggingSession = Inr s'
        \<and> status (boardState s' ! 0 ! 0) = Correct \<and> correctTilesCount s' = 1)"
proof -
  have h1: "gamePhase draggingSession = Placing" by code_simp
  have h2: "draggedTile draggingSession = Some tile1" by code_simp
  have h3: "wf_grid (boardState draggingSession)" by code_simp
  have h4: "wf_grid (solution draggingSession)" by code_simp
  have h5: "(0::nat) < GRID_SIZE" by code_simp
  have h7: "tile (boardState draggingSession ! 0 ! 0) = None" by code_simp
  have h8: "tile_base tile1 = int 0 + 1" by code_simp
  have h9: "spec_deltasRespected (boardState draggingSession) 0 0 (tile_value tile1)"
    by code_simp
  have sol: "solution draggingSession ! 0 ! 0 = tile_value tile1" by code_simp
  have cnt: "correctTilesCount draggingSession = 0" by code_simp
  from handleDrop_accepts [OF h1 h2 h3 h4 h5 h5 h7 h8 h9]
  obtain s' where "handleDrop 0 0 draggingSession = Inr s'"
    and "status (boardState s' ! 0 ! 0) = Correct" and "correctTilesCount s' = 1"
    using sol cnt by auto
  with h1 h2 h3 h4 h5 h7 h8 h9 show ?thesis
    by blast
qed

subsection \<open>Rejected drops\<close>

text \<open>
  With tile 2 in the hand, a drop on the occupied cell (0, 0) returns the session as it
  is: the list of requested sounds is the same, no \<open>incorrect\<close> sound has been added.
\<close>

theorem occupied_drop_is_silent:
  "gamePhase placedDraggingSession = Placing
   \<and> draggedTile placedDraggingSession = Some tile2
   \<and> tile (boardState placedDraggingSession ! 0 ! 0) = Some tile9
   \<and> handleDrop 0 0 placedDraggingSession = Inr placedDraggingSession
   \<and> sounds placedDraggingSession = [Snd_incorrect, Snd_correct, Snd_incorrect]"
  by code_simp

text \<open>
  C2, as the code has it. In the placing phase with a tile in the hand, the target cell
  is looked at first, the base second, the neighbours last. A drop on an occupied cell
  returns the session unchanged and requests no sound. A drop of a tile whose base is
  not \<open>col + 1\<close> on an empty cell changes nothing but the sound list, which gains
  \<open>incorrect\<close>; the neighbours are not read. A drop on an empty cell of the right
  column with a neighbour that breaks the deltas does the same.
\<close>

theorem handleDrop_rejections:
  assumes "gamePhase s = Placing" and "draggedTile s = Some t"
    and "cellAt (boardState s) row col = Inr target"
  shows "(tile target \<noteq> None \<longrightarrow> handleDrop row col s = Inr s)
     \<and> (tile target = None \<and> tile_base t \<noteq> int col + 1 \<longrightarrow>
          handleDrop row col s = Inr (s\<lparr>sounds := sounds s @ [Snd_incorrect]\<rparr>))
     \<and> (tile target = None \<and> tile_base t = int col + 1 \<and> wf_grid (boardState s)
          \<and> \<not> spec_deltasRespected (boardState s) row col (tile_value t) \<longrightarrow>
          handleDrop row col s = Inr (s\<lparr>sounds := sounds s @ [Snd_incorrect]\<rparr>))"
proof -
  have rng: "wf_grid (boardState s) \<Longrightarrow> row < GRID_SIZE \<and> col < GRID_SIZE"
    using assms(3) by (auto simp: cellAt_def wf_grid_length wf_grid_row split: if_splits)
  show ?thesis
    using assms rng
    by (auto simp: handleDrop_def isUIInteractive_def playSound_def isSequenceValid_wf)
qed

text \<open>
  The three rejections on the sample board: (0, 0) is occupied; tile 2 has base 1 and
  (3, 1) is in column 2; at (1, 0) the tile above holds 9, not 2 - 9.
\<close>

theorem handleDrop_rejections_witness:
  "gamePhase placedDraggingSession = Placing
   \<and> draggedTile placedDraggingSession = Some tile2
   \<and> wf_grid (boardState placedDraggingSession)
   \<and> cellAt (boardState placedDraggingSession) 0 0 = Inr (placedBoard ! 0 ! 0)
   \<and> tile (placedBoard ! 0 ! 0) \<noteq> None
   \<and> handleDrop 0 0 placedDraggingSession = Inr placedDraggingSession
   \<and> cellAt (boardState placedDraggingSession) 3 1 = Inr (placedBoard ! 3 ! 1)
   \<and> tile (placedBoard ! 3 ! 1) = None \<and> tile_base tile2 \<noteq> int 1 + 1
   \<and> handleDrop 3 1 placedDraggingSession =
       Inr (placedDraggingSession
              \<lparr>sounds := sounds placedDraggingSession @ [Snd_incorrect]\<rparr>)
   \<and> cellAt (boardState placedDraggingSession) 1 0 = Inr (placedBoard ! 1 ! 0)
   \<and> tile (placedBoard ! 1 ! 0) = None \<and> tile_base tile2 = int 0 + 1
   \<and> \<not> spec_deltasRespected (boardState placedDraggingSession) 1 0 (tile_value tile2)
   \<and> handleDrop 1 0 placedDraggingSession =
       Inr (placedDraggingSession
              \<lparr>sounds := sounds placedDraggingSession @ [Snd_incorrect]\<rparr>)"
proof -
  have h1: "gamePhase placedDraggingSession = Placing" by code_simp
  have h2: "draggedTile placedDraggingSession = Some tile2" by code_simp
  have wf: "wf_grid (boardState placedDraggingSession)" by code_simp
  have a3: "cellAt (boardState placedDraggingSession) 0 0 = Inr (placedBoard ! 0 ! 0)"
    by code_simp
  have a4: "tile (placedBoard ! 0 ! 0) \<noteq> None" by code_simp
  have b3: "cellAt (boardState placedDraggingSession) 3 1 = Inr (placedBoard ! 3 ! 1)"
    by code_simp
  have b4: "tile (placedBoard ! 3 ! 1) = None \<and> tile_base tile2 \<noteq> int 1 + 1" by code_simp
  have c3: "cellAt (boardState placedDraggingSession) 1 0 = Inr (placedBoard ! 1 ! 0)"
    by code_simp
  have c4: "tile (placedBoard ! 1 ! 0) = None \<and> tile_base tile2 = int 0 + 1" by code_simp
  have c5: "\<not> spec_deltasRespected (boardState placedDraggingSession) 1 0 (tile_value tile2)"
    by code_simp
  show ?thesis
    using handleDrop_rejections [OF h1 h2 a3] handleDrop_rejections [OF h1 h2 b3]
      handleDrop_rejections [OF h1 h2 c3] h1 h2 wf a3 a4 b3 b4 c3 c4 c5
    by blast
qed

subsection \<open>Outside the placing phase\<close>

text \<open>
  C8. When the phase is \<open>final_challenge\<close> or \<open>won\<close>, a drop, a tile return and a hint
  each return the session unchanged: board, palette, correctness counter and hint
  counter are what they were, also after the effect has run.
\<close>

theorem frozen_outside_placing:
  assumes "gamePhase s = Final_challenge \<or> gamePhase s = Won"
  shows "handleDrop row col s = Inr s
     \<and> handleTileReturn t fromRow fromCol s = Inr s
     \<and> handleHint k s = Inr s
     \<and> step rr rc (Drop row col) s = Inr s
     \<and> step rr rc (TileReturn t fromRow fromCol) s = Inr s
     \<and> step rr rc (Hint k) s = Inr s"
  using assms
  by (auto simp: handleDrop_def handleTileReturn_def handleHint_def isUIInteractive_def
      step_def phaseEffect_def)

text \<open>The sample board in phase \<open>won\<close>.\<close>

theorem frozen_outside_placing_witness:
  "(gamePhase (placedDraggingSession\<lparr>gamePhase := Won\<rparr>) = Final_challenge
      \<or> gamePhase (placedDraggingSession\<lparr>gamePhase := Won\<rparr>) = Won)
   \<and> handleDrop 1 0 (placedDraggingSession\<lparr>gamePhase := Won\<rparr>) =
       Inr (placedDraggingSession\<lparr>gamePhase := Won\<rparr>)
   \<and> handleTileReturn tile1 5 0 (placedDraggingSession\<lparr>gamePhase := Won\<rparr>) =
       Inr (placedDraggingSession\<lparr>gamePhase := Won\<rparr>)
   \<and> handleHint 0 (placedDraggingSession\<lparr>gamePhase := Won\<rparr>) =
       Inr (placedDraggingSession\<lparr>gamePhase := Won\<rparr>)"
  using frozen_outside_placing [of "placedDraggingSession\<lparr>gamePhase := Won\<rparr>" 1 0 tile1 5 0 0]
  by simp

subsection \<open>Returning a tile to the palette\<close>

lemma hasDependentTile_wf:
  assumes "wf_grid b" "r < GRID_SIZE" "c < GRID_SIZE"
  shows "hasDependentTile b r c = Inr (spec_hasDependent b r c)"
  using assms
  by (auto simp: hasDependentTile_def occupied_def cellAt_wf spec_hasDependent_def
      less_diff_conv)

text \<open>
  The return of tile 10 from its \<open>correct\<close> cell (0, 1) is refused and the session is
  returned as it is: no \<open>incorrect\<close> sound has been added.
\<close>

theorem locked_return_is_silent:
  "gamePhase placedSession = Placing
   \<and> tile (boardState placedSession ! 0 ! 1) = Some tile10
   \<and> status (boardState placedSession ! 0 ! 1) = Correct
   \<and> handleTileReturn tile10 0 1 placedSession = Inr placedSession
   \<and> sounds placedSession = [Snd_incorrect, Snd_correct, Snd_incorrect]"
  by code_simp

text \<open>
  C3, as the code has it. In the placing phase, on a 9 by 9 board: a return from a cell
  whose status is \<open>correct\<close> is refused without a sound and without any change, so such
  a tile is never removed by a return; a return from another cell with an occupied cell
  at \<open>(row + 1, col)\<close> or \<open>(row, col + 1)\<close> is refused, nothing changes but the sound
  list, which gains \<open>incorrect\<close>; any other return empties the cell (status \<open>empty\<close>)
  and appends the tile to the palette.
\<close>

theorem handleTileReturn_cases:
  assumes "gamePhase s = Placing" and "wf_grid (boardState s)"
    and "fromRow < GRID_SIZE" and "fromCol < GRID_SIZE"
  shows "(status (boardState s ! fromRow ! fromCol) = Correct \<longrightarrow>
            handleTileReturn t fromRow fromCol s = Inr s)
     \<and> (status (boardState s ! fromRow ! fromCol) \<noteq> Correct
          \<and> spec_hasDependent (boardState s) fromRow fromCol \<longrightarrow>
            handleTileReturn t fromRow fromCol s =
              Inr (s\<lparr>sounds := sounds s @ [Snd_incorrect]\<rparr>))
     \<and> (status (boardState s ! fromRow ! fromCol) \<noteq> Correct
          \<and> \<not> spec_hasDependent (boardState s) fromRow fromCol \<longrightarrow>
            handleTileReturn t fromRow fromCol s =
              Inr (s\<lparr>sounds := sounds s @ [Snd_return],
                     boardState := setCell (boardState s) fromRow fromCol emptyCell,
                     paletteTiles := paletteTiles s @ [t]\<rparr>)
            \<and> setCell (boardState s) fromRow fromCol emptyCell ! fromRow ! fromCol =
                \<lparr>tile = None, status = Empty, isHint = False\<rparr>)"
  using assms
  by (auto simp: handleTileReturn_def isUIInteractive_def cellAt_wf hasDependentTile_wf
      playSound_def setCell_same wf_grid_length wf_grid_row emptyCell_def)

text \<open>The three cases on the sample board: (0, 1) is locked, (0, 0) has the tile at
  (0, 1) depending on it, (5, 0) is free to go.\<close>

theorem handleTileReturn_cases_witness:
  "gamePhase placedSession = Placing \<and> wf_grid (boardState placedSession)
   \<and> (0::nat) < GRID_SIZE \<and> (1::nat) < GRID_SIZE \<and> (5::nat) < GRID_SIZE
   \<and> status (boardState placedSession ! 0 ! 1) = Correct
   \<and> handleTileReturn tile10 0 1 placedSession = Inr placedSession
   \<and> status (boardState placedSession ! 0 ! 0) \<noteq> Correct
   \<and> spec_hasDependent (boardState placedSession) 0 0
   \<and> handleTileReturn tile9 0 0 placedSession =
       Inr (placedSession\<lparr>sounds := sounds placedSession @ [Snd_incorrect]\<rparr>)
   \<and> status (boardState placedSession ! 5 ! 0) \<noteq> Correct
   \<and> \<not> spec_hasDependent (boardState placedSession) 5 0
   \<and> handleTileReturn tile1 5 0 placedSession =
       Inr (placedSession
              \<lparr>sounds := sounds placedSession @ [Snd_return],
               boardState := setCell (boardState placedSession) 5 0 emptyCell,
               paletteTiles := paletteTiles placedSession @ [tile1]\<rparr>)"
proof -
  have h1: "gamePhase placedSession = Placing" by code_simp
  have wf: "wf_grid (boardState placedSession)" by code_simp
  have n: "(0::nat) < GRID_SIZE" "(1::nat) < GRID_SIZE" "(5::nat) < GRID_SIZE"
    by (simp_all add: GRID_SIZE_def)
  have a: "status (boardState placedSession ! 0 ! 1) = Correct" by code_simp
  have b: "status (boardState placedSession ! 0 ! 0) \<noteq> Correct
           \<and> spec_hasDependent (boardState placedSession) 0 0" by code_simp
  have c: "status (boardState placedSession ! 5 ! 0) \<noteq> Correct
           \<and> \<not> spec_hasDependent (boardState placedSession) 5 0" by code_simp
  show ?thesis
    using handleTileReturn_cases [OF h1 wf n(1) n(2), of tile10]
      handleTileReturn_cases [OF h1 wf n(1) n(1), of tile9]
      handleTileReturn_cases [OF h1 wf n(3) n(1), of tile1] h1 wf n a b c
    by blast
qed

subsection \<open>Hints\<close>

text \<open>On a 9 by 9 board the two loops of the search find the first holder of the
  value, row by row, and do not throw.\<close>

lemma findInRow_wf:
  assumes "wf_grid b" "r < GRID_SIZE"
  shows "\<forall>c\<in>set cs. c < GRID_SIZE \<Longrightarrow>
    findInRow b v r cs = Inr (find (\<lambda>c. holdsValue (b ! r ! c) v) cs)"
  using assms by (induction cs) (auto simp: cellAt_wf holdsValue_def)

lemma find_append_cases:
  "find P (xs @ ys) = (case find P xs of None \<Rightarrow> find P ys | Some x \<Rightarrow> Some x)"
  by (induction xs) simp_all

lemma find_map_Pair:
  "find (\<lambda>(r, c). Q r c) (map (Pair r) cs) = map_option (Pair r) (find (Q r) cs)"
  by (induction cs) simp_all

lemma find_Some_set: "find P xs = Some x \<Longrightarrow> x \<in> set xs \<and> P x"
  by (induction xs) (auto split: if_splits)

lemma findOnBoard_wf:
  assumes "wf_grid b"
  shows "\<forall>r\<in>set rs. r < GRID_SIZE \<Longrightarrow>
    findOnBoard b v rs =
      Inr (find (\<lambda>(r, c). holdsValue (b ! r ! c) v) (List.product rs [0..<GRID_SIZE]))"
proof (induction rs)
  case Nil
  then show ?case by simp
next
  case (Cons r rs)
  have row: "findInRow b v r [0..<GRID_SIZE] =
      Inr (find (\<lambda>c. holdsValue (b ! r ! c) v) [0..<GRID_SIZE])"
    using assms Cons.prems by (intro findInRow_wf) auto
  show ?case
    using Cons
    by (simp add: row find_append_cases find_map_Pair split: option.splits)
qed

lemma findOnBoard_spec:
  "wf_grid b \<Longrightarrow> findOnBoard b v [0..<GRID_SIZE] = Inr (spec_firstHolder b v)"
  by (simp add: findOnBoard_wf spec_firstHolder_def gridPositions_def)

lemma spec_firstHolder_Some:
  "spec_firstHolder b v = Some (r, c) \<Longrightarrow>
     r < GRID_SIZE \<and> c < GRID_SIZE \<and> holdsValue (b ! r ! c) v"
  by (auto simp: spec_firstHolder_def gridPositions_def dest!: find_Some_set)

lemma spec_firstHolder_None:
  "spec_firstHolder b v = None \<longleftrightarrow>
     (\<forall>r < GRID_SIZE. \<forall>c < GRID_SIZE. \<not> holdsValue (b ! r ! c) v)"
  by (auto simp: spec_firstHolder_def gridPositions_def find_None_iff)

lemma unsolvedCells_iff:
  "(r, c) \<in> set (unsolvedCells b) \<longleftrightarrow>
     r < length b \<and> c < length (b ! r) \<and> status (b ! r ! c) \<noteq> Correct"
  by (auto simp: unsolvedCells_def unsolvedInRow_def)

lemma unsolvedCells_empty_iff:
  "wf_grid b \<Longrightarrow> unsolvedCells b = [] \<longleftrightarrow>
     (\<forall>r < GRID_SIZE. \<forall>c < GRID_SIZE. status (b ! r ! c) = Correct)"
proof -
  assume wf: "wf_grid b"
  have "unsolvedCells b = [] \<longleftrightarrow> set (unsolvedCells b) = {}"
    by simp
  also have "\<dots> \<longleftrightarrow> (\<forall>r c. (r, c) \<notin> set (unsolvedCells b))"
    unfolding set_eq_iff by (simp only: split_paired_All empty_iff simp_thms)
  also have "\<dots> \<longleftrightarrow> (\<forall>r < GRID_SIZE. \<forall>c < GRID_SIZE. status (b ! r ! c) = Correct)"
    using wf by (auto simp: unsolvedCells_iff wf_grid_length wf_grid_row)
  finally show ?thesis .
qed

text \<open>The cell drawn for a hint is still unsolved after the eviction.\<close>

lemma evicted_target_not_correct:
  assumes wf: "wf_grid b" and rng: "hr < GRID_SIZE" "hc < GRID_SIZE"
    and st: "status (b ! hr ! hc) \<noteq> Correct"
  shows "status ((case spec_firstHolder b v of None \<Rightarrow> b
                  | Some (r, c) \<Rightarrow> setCell b r c emptyCell) ! hr ! hc) \<noteq> Correct"
proof (cases "spec_firstHolder b v")
  case None
  then show ?thesis using st by simp
next
  case (Some p)
  obtain r c where p: "p = (r, c)" by (cases p)
  have "r < GRID_SIZE" "c < GRID_SIZE"
    using Some p spec_firstHolder_Some by blast+
  then have len: "r < length b" "c < length (b ! r)"
    using wf by (simp_all add: wf_grid_length wf_grid_row)
  show ?thesis
  proof (cases "(hr, hc) = (r, c)")
    case True
    then show ?thesis using Some p len by (simp add: setCell_same emptyCell_def)
  next
    case False
    then show ?thesis using Some p len st by (simp add: setCell_other)
  qed
qed

lemma placeHint_wf:
  assumes wf: "wf_grid (boardState s)" "wf_grid (solution s)"
    and rng: "hr < GRID_SIZE" "hc < GRID_SIZE"
    and st: "status (boardState s ! hr ! hc) \<noteq> Correct"
  shows "placeHint hr hc s =
     Inr (s\<lparr>boardState :=
              setCell
                (case spec_firstHolder (boardState s) (solution s ! hr ! hc) of
                   None \<Rightarrow> boardState s
                 | Some (r, c) \<Rightarrow> setCell (boardState s) r c emptyCell)
                hr hc
                \<lparr>tile = Some \<lparr>tile_value = solution s ! hr ! hc,
                              tile_base = calculateBase (solution s ! hr ! hc)\<rparr>,
                 status = Correct, isHint = True\<rparr>,
            paletteTiles :=
              (case spec_firstHolder (boardState s) (solution s ! hr ! hc) of
                 None \<Rightarrow>
                   filter (\<lambda>t. tile_value t \<noteq> solution s ! hr ! hc)
                     (paletteTiles s @
                        (case tile (boardState s ! hr ! hc) of
                           None \<Rightarrow> [] | Some t \<Rightarrow> [t]))
               | Some _ \<Rightarrow>
                   paletteTiles s @
                     (case tile (boardState s ! hr ! hc) of
                        None \<Rightarrow> [] | Some t \<Rightarrow> [t])),
            correctTilesCount := correctTilesCount s + 1,
            hintsUsed := hintsUsed s + 1\<rparr>)"
proof -
  let ?b = "boardState s"
  let ?b1 = "case spec_firstHolder ?b (solution s ! hr ! hc) of
               None \<Rightarrow> ?b | Some (r, c) \<Rightarrow> setCell ?b r c emptyCell"
  have st1: "status (?b1 ! hr ! hc) \<noteq> Correct"
    using wf(1) rng st by (rule evicted_target_not_correct)
  have wf1: "wf_grid ?b1"
    using wf(1) by (auto simp: wf_grid_setCell split: option.splits)
  show ?thesis
    using wf rng st1 wf1
    by (simp add: placeHint_def Let_def solutionAt_wf cellAt_wf findOnBoard_spec
        split: option.splits)
qed

lemma pick_unsolved:
  assumes "wf_grid b" "unsolvedCells b \<noteq> []"
  obtains hr hc where "unsolvedCells b ! (k mod length (unsolvedCells b)) = (hr, hc)"
    and "hr < GRID_SIZE" and "hc < GRID_SIZE" and "status (b ! hr ! hc) \<noteq> Correct"
proof -
  let ?u = "unsolvedCells b"
  obtain hr hc where pick: "?u ! (k mod length ?u) = (hr, hc)"
    by (cases "?u ! (k mod length ?u)") auto
  have "(hr, hc) \<in> set ?u"
    using assms(2) pick by (metis length_greater_0_conv mod_less_divisor nth_mem)
  then have "hr < GRID_SIZE" "hc < GRID_SIZE" "status (b ! hr ! hc) \<noteq> Correct"
    using assms(1) by (auto simp: unsolvedCells_iff wf_grid_length wf_grid_row)
  with pick that show ?thesis by blast
qed

lemma playSound_fields [simp]:
  "boardState (playSound x s) = boardState s"
  "solution (playSound x s) = solution s"
  "paletteTiles (playSound x s) = paletteTiles s"
  "correctTilesCount (playSound x s) = correctTilesCount s"
  "hintsUsed (playSound x s) = hintsUsed s"
  "gamePhase (playSound x s) = gamePhase s"
  "finalCodeAnswer (playSound x s) = finalCodeAnswer s"
  "draggedTile (playSound x s) = draggedTile s"
  "sounds (playSound x s) = sounds s @ [x]"
  by (simp_all add: playSound_def)

lemma handleHint_pick:
  assumes "gamePhase s = Placing" and "wf_grid (boardState s)"
    and "unsolvedCells (boardState s) \<noteq> []"
  obtains hr hc where "hr < GRID_SIZE" and "hc < GRID_SIZE"
    and "status (boardState s ! hr ! hc) \<noteq> Correct"
    and "handleHint k s = placeHint hr hc (playSound Snd_hint s)"
proof -
  from pick_unsolved [OF assms(2) assms(3), of k] obtain hr hc
    where "unsolvedCells (boardState s) ! (k mod length (unsolvedCells (boardState s))) = (hr, hc)"
    and "hr < GRID_SIZE" and "hc < GRID_SIZE" and "status (boardState s ! hr ! hc) \<noteq> Correct"
    by blast
  moreover from this assms have "handleHint k s = placeHint hr hc (playSound Snd_hint s)"
    by (simp add: handleHint_def isUIInteractive_def Let_def)
  ultimately show ?thesis using that by blast
qed

text \<open>
  C4, as the code has it. In the placing phase, on a 9 by 9 board and solution: there is
  no unsolved cell exactly when every cell is \<open>correct\<close>, and then the hint changes
  nothing but the sound list. Otherwise the hint draws a cell whose status is not
  \<open>correct\<close>. The tile that was in that cell, if any, is appended to the palette. If
  the cell's correct value sits in a board cell, the first such cell is emptied and its
  tile is not added to the palette; otherwise every palette entry with that value is
  removed. The correct tile is then put in the drawn cell with status \<open>correct\<close> and
  \<open>isHint\<close> true, and both the correctness counter and the hint counter go up by one.
\<close>

theorem handleHint_effect:
  assumes "gamePhase s = Placing" and "wf_grid (boardState s)" and "wf_grid (solution s)"
  shows "(unsolvedCells (boardState s) = [] \<longleftrightarrow>
            (\<forall>r < GRID_SIZE. \<forall>c < GRID_SIZE. status (boardState s ! r ! c) = Correct))
     \<and> (unsolvedCells (boardState s) = [] \<longrightarrow>
            handleHint k s = Inr (s\<lparr>sounds := sounds s @ [Snd_hint]\<rparr>))
     \<and> (unsolvedCells (boardState s) \<noteq> [] \<longrightarrow>
          (\<exists>hr hc. hr < GRID_SIZE \<and> hc < GRID_SIZE
             \<and> status (boardState s ! hr ! hc) \<noteq> Correct
             \<and> handleHint k s =
                 Inr (s\<lparr>sounds := sounds s @ [Snd_hint],
                        boardState :=
                          setCell
                            (case spec_firstHolder (boardState s) (solution s ! hr ! hc) of
                               None \<Rightarrow> boardState s
                             | Some (r, c) \<Rightarrow> setCell (boardState s) r c emptyCell)
                            hr hc
                            \<lparr>tile = Some \<lparr>tile_value = solution s ! hr ! hc,
                                          tile_base = calculateBase (solution s ! hr ! hc)\<rparr>,
                             status = Correct, isHint = True\<rparr>,
                        paletteTiles :=
                          (case spec_firstHolder (boardState s) (solution s ! hr ! hc) of
                             None \<Rightarrow>
                               filter (\<lambda>t. tile_value t \<noteq> solution s ! hr ! hc)
                                 (paletteTiles s @
                                    (case tile (boardState s ! hr ! hc) of
                                       None \<Rightarrow> [] | Some t \<Rightarrow> [t]))
                           | Some _ \<Rightarrow>
                               paletteTiles s @
                                 (case tile (boardState s ! hr ! hc) of
                                    None \<Rightarrow> [] | Some t \<Rightarrow> [t])),
                        correctTilesCount := correctTilesCount s + 1,
                        hintsUsed := hintsUsed s + 1\<rparr>)))"
  (is "?all \<and> ?noop \<and> (_ \<longrightarrow> (\<exists>hr hc. ?hinted hr hc))")
proof (intro conjI impI)
  show ?all
    using assms(2) by (rule unsolvedCells_empty_iff)
next
  assume "unsolvedCells (boardState s) = []"
  then show "handleHint k s = Inr (s\<lparr>sounds := sounds s @ [Snd_hint]\<rparr>)"
    using assms(1) by (simp add: handleHint_def isUIInteractive_def playSound_def)
next
  assume ne: "unsolvedCells (boardState s) \<noteq> []"
  from handleHint_pick [OF assms(1) assms(2) ne, of k] obtain hr hc
    where rng: "hr < GRID_SIZE" "hc < GRID_SIZE"
      and st: "status (boardState s ! hr ! hc) \<noteq> Correct"
      and eq: "handleHint k s = placeHint hr hc (playSound Snd_hint s)"
    by blast
  have "?hinted hr hc"
    using rng st assms
    by (simp add: eq placeHint_wf cong: option.case_cong) (simp add: playSound_def)
  then show "\<exists>hr hc. ?hinted hr hc"
    by blast
qed

text \<open>A hint on the sample board with three tiles placed, and a hint on the board
  where every cell is \<open>correct\<close>.\<close>

theorem handleHint_effect_witness:
  "gamePhase placedSession = Placing \<and> wf_grid (boardState placedSession)
   \<and> wf_grid (solution placedSession)
   \<and> unsolvedCells (boardState placedSession) \<noteq> []
   \<and> (\<exists>hr hc s'. hr < GRID_SIZE \<and> hc < GRID_SIZE
        \<and> status (boardState placedSession ! hr ! hc) \<noteq> Correct
        \<and> handleHint 0 placedSession = Inr s'
        \<and> correctTilesCount s' = correctTilesCount placedSession + 1
        \<and> hintsUsed s' = hintsUsed placedSession + 1)
   \<and> gamePhase solvedSession = Placing \<and> wf_grid (boardState solvedSession)
   \<and> wf_grid (solution solvedSession)
   \<and> unsolvedCells (boardState solvedSession) = []
   \<and> handleHint 0 solvedSession =
       Inr (solvedSession\<lparr>sounds := sounds solvedSession @ [Snd_hint]\<rparr>)"
proof -
  have p: "gamePhase placedSession = Placing" "wf_grid (boardState placedSession)"
    "wf_grid (solution placedSession)" "unsolvedCells (boardState placedSession) \<noteq> []"
    by code_simp+
  have q: "gamePhase solvedSession = Placing" "wf_grid (boardState solvedSession)"
    "wf_grid (solution solvedSession)" "unsolvedCells (boardState solvedSession) = []"
    by code_simp+
  from handleHint_effect [OF p(1) p(2) p(3), of 0] p(4)
  obtain hr hc s' where "hr < GRID_SIZE" "hc < GRID_SIZE"
    "status (boardState placedSession ! hr ! hc) \<noteq> Correct"
    "handleHint 0 placedSession = Inr s'"
    "correctTilesCount s' = correctTilesCount placedSession + 1"
    "hintsUsed s' = hintsUsed placedSession + 1"
    by fastforce
  moreover from handleHint_effect [OF q(1) q(2) q(3), of 0] q(4)
  have "handleHint 0 solvedSession =
       Inr (solvedSession\<lparr>sounds := sounds solvedSession @ [Snd_hint]\<rparr>)"
    by blast
  ultimately show ?thesis using p q by blast
qed

text \<open>
  On the sample board value 1 sits at (5, 0) and the hint is drawn for (0, 0), whose
  correct value is 1. The hint empties (5, 0) and puts value 1 at (0, 0); the palette
  gains tile 9, which was at (0, 0), and no tile of value 1.
\<close>

theorem hint_keeps_evicted_tile_off_palette:
  "holdsValue (boardState placedSession ! 5 ! 0) 1
   \<and> status (boardState placedSession ! 0 ! 0) \<noteq> Correct
   \<and> solution placedSession ! 0 ! 0 = 1
   \<and> handleHint 0 placedSession = Inr hintedSession
   \<and> boardState hintedSession ! 5 ! 0 = emptyCell
   \<and> holdsValue (boardState hintedSession ! 0 ! 0) 1
   \<and> paletteCopies 1 (paletteTiles hintedSession) = 0
   \<and> paletteTiles hintedSession = paletteTiles placedSession @ [tile9]"
  by code_simp

subsection \<open>Counting correct cells\<close>

lemma sum_list_map_update:
  "i < length xs \<Longrightarrow>
   sum_list (map f (xs[i := y])) + f (xs ! i) = sum_list (map f xs) + (f y :: nat)"
  by (induction xs arbitrary: i) (auto split: nat.splits)

lemma length_filter_sum_list:
  "length (filter P xs) = sum_list (map (\<lambda>x. if P x then 1 else 0) xs)"
  by (induction xs) simp_all

lemma length_filter_update:
  "i < length xs \<Longrightarrow>
   length (filter P (xs[i := y])) + (if P (xs ! i) then 1 else 0) =
   length (filter P xs) + (if P y then 1 else 0)"
  unfolding length_filter_sum_list
  by (rule sum_list_map_update)

lemma correctCells_setCell:
  assumes "r < length b" "c < length (b ! r)"
  shows "correctCells (setCell b r c x) + (if status (b ! r ! c) = Correct then 1 else 0) =
         correctCells b + (if status x = Correct then 1 else 0)"
proof -
  let ?f = "\<lambda>row. length (filter (\<lambda>cell. status cell = Correct) row)"
  have "correctCells (setCell b r c x) + ?f (b ! r) = correctCells b + ?f ((b ! r)[c := x])"
    unfolding correctCells_def setCell_def
    using assms(1) by (rule sum_list_map_update)
  moreover have "?f ((b ! r)[c := x]) + (if status (b ! r ! c) = Correct then 1 else 0) =
      ?f (b ! r) + (if status x = Correct then 1 else 0)"
    using assms(2) by (rule length_filter_update)
  ultimately show ?thesis by linarith
qed

lemma correctCells_le: "wf_grid b \<Longrightarrow> correctCells b \<le> GRID_SIZE * GRID_SIZE"
proof -
  assume wf: "wf_grid b"
  have "correctCells b \<le> sum_list (map (\<lambda>row. GRID_SIZE) b)"
    unfolding correctCells_def
  proof (rule sum_list_mono)
    fix row assume "row \<in> set b"
    then have "length row = GRID_SIZE"
      using wf by (simp add: wf_grid_def list_all_iff)
    then show "length (filter (\<lambda>cell. status cell = Correct) row) \<le> GRID_SIZE"
      using length_filter_le [of "\<lambda>cell. status cell = Correct" row] by simp
  qed
  also have "\<dots> = GRID_SIZE * GRID_SIZE"
    using wf by (simp add: sum_list_triv wf_grid_length)
  finally show ?thesis .
qed

lemma all_cells_correct:
  assumes wf: "wf_grid b" and full: "correctCells b = GRID_SIZE * GRID_SIZE"
    and rng: "r < GRID_SIZE" "c < GRID_SIZE"
  shows "status (b ! r ! c) = Correct"
proof (rule ccontr)
  assume no: "status (b ! r ! c) \<noteq> Correct"
  let ?x = "\<lparr>tile = None, status = Correct, isHint = False\<rparr>"
  have len: "r < length b" "c < length (b ! r)"
    using wf rng by (simp_all add: wf_grid_length wf_grid_row)
  have "correctCells (setCell b r c ?x) = correctCells b + 1"
    using correctCells_setCell [OF len, of ?x] no by simp
  moreover have "correctCells (setCell b r c ?x) \<le> GRID_SIZE * GRID_SIZE"
    using wf by (intro correctCells_le wf_grid_setCell)
  ultimately show False using full by simp
qed

lemma unsolved_exists:
  assumes wf: "wf_grid b" and less: "correctCells b < GRID_SIZE * GRID_SIZE"
  shows "unsolvedCells b \<noteq> []"
proof
  assume "unsolvedCells b = []"
  then have all: "\<forall>r < GRID_SIZE. \<forall>c < GRID_SIZE. status (b ! r ! c) = Correct"
    using wf by (simp add: unsolvedCells_empty_iff)
  have "\<And>row. row \<in> set b \<Longrightarrow> filter (\<lambda>cell. status cell = Correct) row = row"
  proof -
    fix row assume "row \<in> set b"
    then obtain r where r: "r < length b" "row = b ! r"
      by (auto simp: in_set_conv_nth)
    have "\<forall>cell \<in> set row. status cell = Correct"
    proof
      fix cell assume "cell \<in> set row"
      then obtain c where "c < length row" "cell = row ! c"
        by (auto simp: in_set_conv_nth)
      then show "status cell = Correct"
        using all r wf by (simp add: wf_grid_length wf_grid_row)
    qed
    then show "filter (\<lambda>cell. status cell = Correct) row = row"
      by simp
  qed
  then have "correctCells b = sum_list (map length b)"
    unfolding correctCells_def by (intro arg_cong [where f = sum_list] map_cong) auto
  also have "\<dots> = sum_list (map (\<lambda>row. GRID_SIZE) b)"
    using wf by (intro arg_cong [where f = sum_list] map_cong) (auto simp: wf_grid_def list_all_iff)
  also have "\<dots> = GRID_SIZE * GRID_SIZE"
    using wf by (simp add: sum_list_triv wf_grid_length)
  finally show False using less by simp
qed

lemma consistent_iff:
  "consistent s \<longleftrightarrow>
     (\<forall>r < GRID_SIZE. \<forall>c < GRID_SIZE.
        (status (boardState s ! r ! c) = Correct) =
        holdsValue (boardState s ! r ! c) (solution s ! r ! c))"
  by (auto simp: consistent_def gridPositions_def list_all_iff)

subsection \<open>The final code\<close>

lemma attempts_append: "attempts (xs @ ys) s = attempts ys (attempts xs s)"
  by (induction xs arbitrary: s) simp_all

lemma submit_wrong:
  "parseInt (finalCodeInput s) \<noteq> finalCodeAnswer s \<or> finalCodeAnswer s = None \<Longrightarrow>
   handleFinalCodeSubmit s =
     s\<lparr>sounds := sounds s @ [Snd_incorrect], challengeShake := True, finalCodeInput := []\<rparr>"
  by (auto simp: handleFinalCodeSubmit_def Let_def playSound_def)

lemma attempts_wrong:
  "\<forall>g \<in> set gs. parseInt (take 1 g) \<noteq> finalCodeAnswer s \<Longrightarrow>
   gamePhase (attempts gs s) = gamePhase s
   \<and> finalCodeAnswer (attempts gs s) = finalCodeAnswer s
   \<and> boardState (attempts gs s) = boardState s
   \<and> paletteTiles (attempts gs s) = paletteTiles s
   \<and> correctTilesCount (attempts gs s) = correctTilesCount s
   \<and> hintsUsed (attempts gs s) = hintsUsed s"
proof (induction gs arbitrary: s)
  case Nil
  then show ?case by simp
next
  case (Cons g gs)
  let ?s1 = "handleFinalCodeSubmit (changeFinalCodeInput g s)"
  have s1: "?s1 = (changeFinalCodeInput g s)
      \<lparr>sounds := sounds s @ [Snd_incorrect], challengeShake := True, finalCodeInput := []\<rparr>"
    using Cons.prems submit_wrong [of "changeFinalCodeInput g s"]
    by (simp add: changeFinalCodeInput_def)
  have fields: "finalCodeAnswer ?s1 = finalCodeAnswer s" "gamePhase ?s1 = gamePhase s"
    "boardState ?s1 = boardState s" "paletteTiles ?s1 = paletteTiles s"
    "correctTilesCount ?s1 = correctTilesCount s" "hintsUsed ?s1 = hintsUsed s"
    unfolding s1 by (simp_all add: changeFinalCodeInput_def)
  have "\<forall>g \<in> set gs. parseInt (take 1 g) \<noteq> finalCodeAnswer ?s1"
    using Cons.prems by (simp add: fields)
  from Cons.IH [OF this] show ?case
    by (simp add: fields)
qed

text \<open>
  C6. When the counter has reached 81 in the placing phase, the effect draws a cell
  \<open>(r, c)\<close> of the grid, sets the answer to \<open>calculateBase\<close> of the solution's value
  there and enters \<open>final_challenge\<close>; under the counter invariant the board holds that
  very value in the cell. In \<open>final_challenge\<close> the guess is what \<open>parseInt\<close> reads
  from the input. A guess equal to the answer gives \<open>won\<close>. Any other guess, a
  malformed input among them, changes nothing but the sound list, the shake flag, which
  is set, and the input, which is cleared: phase, board and counter stay. After any
  number of such guesses the phase is still \<open>final_challenge\<close> and the next right
  guess wins.
\<close>

theorem final_challenge:
  "(gamePhase s = Placing \<and> correctTilesCount s = GRID_SIZE * GRID_SIZE
      \<and> wf_grid (solution s) \<longrightarrow>
      (\<exists>r < GRID_SIZE. \<exists>c < GRID_SIZE.
         phaseEffect rr rc s =
           Inr (s\<lparr>sounds := sounds s @ [Snd_win],
                  timerRunning := False,
                  blinkingCell := Some (r, c),
                  finalCodeAnswer := Some (calculateBase (solution s ! r ! c)),
                  gamePhase := Final_challenge\<rparr>)
         \<and> (counter_inv s \<longrightarrow> holdsValue (boardState s ! r ! c) (solution s ! r ! c))))
   \<and> (gamePhase s = Final_challenge \<and> finalCodeAnswer s = Some a \<longrightarrow>
        (parseInt (finalCodeInput s) = Some a \<longrightarrow>
           handleFinalCodeSubmit s =
             s\<lparr>sounds := sounds s @ [Snd_win], gamePhase := Won, blinkingCell := None\<rparr>)
      \<and> (parseInt (finalCodeInput s) \<noteq> Some a \<longrightarrow>
           handleFinalCodeSubmit s =
             s\<lparr>sounds := sounds s @ [Snd_incorrect], challengeShake := True,
               finalCodeInput := []\<rparr>)
      \<and> ((\<forall>g \<in> set gs. parseInt (take 1 g) \<noteq> Some a) \<longrightarrow>
           gamePhase (attempts gs s) = Final_challenge
           \<and> finalCodeAnswer (attempts gs s) = Some a
           \<and> boardState (attempts gs s) = boardState s
           \<and> correctTilesCount (attempts gs s) = correctTilesCount s
           \<and> (parseInt (take 1 g') = Some a \<longrightarrow>
                gamePhase (attempts (gs @ [g']) s) = Won)))"
proof (intro conjI impI)
  assume a: "gamePhase s = Placing \<and> correctTilesCount s = GRID_SIZE * GRID_SIZE
      \<and> wf_grid (solution s)"
  let ?r = "rr mod GRID_SIZE" and ?c = "rc mod GRID_SIZE"
  have rng: "?r < GRID_SIZE" "?c < GRID_SIZE"
    by (simp_all add: GRID_SIZE_def)
  have eff: "phaseEffect rr rc s =
           Inr (s\<lparr>sounds := sounds s @ [Snd_win],
                  timerRunning := False,
                  blinkingCell := Some (?r, ?c),
                  finalCodeAnswer := Some (calculateBase (solution s ! ?r ! ?c)),
                  gamePhase := Final_challenge\<rparr>)"
    using a rng by (simp add: phaseEffect_def Let_def solutionAt_wf playSound_def GRID_SIZE_def)
  have "holdsValue (boardState s ! ?r ! ?c) (solution s ! ?r ! ?c)" if "counter_inv s"
  proof -
    have "status (boardState s ! ?r ! ?c) = Correct"
      using that a rng by (intro all_cells_correct) (simp_all add: counter_inv_def)
    then show ?thesis
      using that rng by (simp add: counter_inv_def consistent_iff)
  qed
  with eff rng show "\<exists>r < GRID_SIZE. \<exists>c < GRID_SIZE.
         phaseEffect rr rc s =
           Inr (s\<lparr>sounds := sounds s @ [Snd_win],
                  timerRunning := False,
                  blinkingCell := Some (r, c),
                  finalCodeAnswer := Some (calculateBase (solution s ! r ! c)),
                  gamePhase := Final_challenge\<rparr>)
         \<and> (counter_inv s \<longrightarrow> holdsValue (boardState s ! r ! c) (solution s ! r ! c))"
    by blast
next
  assume "gamePhase s = Final_challenge \<and> finalCodeAnswer s = Some a"
    and "parseInt (finalCodeInput s) = Some a"
  then show "handleFinalCodeSubmit s =
             s\<lparr>sounds := sounds s @ [Snd_win], gamePhase := Won, blinkingCell := None\<rparr>"
    by (simp add: handleFinalCodeSubmit_def Let_def playSound_def)
next
  assume "gamePhase s = Final_challenge \<and> finalCodeAnswer s = Some a"
    and "parseInt (finalCodeInput s) \<noteq> Some a"
  then show "handleFinalCodeSubmit s =
             s\<lparr>sounds := sounds s @ [Snd_incorrect], challengeShake := True,
               finalCodeInput := []\<rparr>"
    by (intro submit_wrong) simp
next
  assume a: "gamePhase s = Final_challenge \<and> finalCodeAnswer s = Some a"
    and w: "\<forall>g \<in> set gs. parseInt (take 1 g) \<noteq> Some a"
  from w a have keep: "gamePhase (attempts gs s) = gamePhase s
   \<and> finalCodeAnswer (attempts gs s) = finalCodeAnswer s
   \<and> boardState (attempts gs s) = boardState s
   \<and> paletteTiles (attempts gs s) = paletteTiles s
   \<and> correctTilesCount (attempts gs s) = correctTilesCount s
   \<and> hintsUsed (attempts gs s) = hintsUsed s"
    by (intro attempts_wrong) simp
  show "gamePhase (attempts gs s) = Final_challenge" using keep a by simp
  show "finalCodeAnswer (attempts gs s) = Some a" using keep a by simp
  show "boardState (attempts gs s) = boardState s" using keep by simp
  show "correctTilesCount (attempts gs s) = correctTilesCount s" using keep by simp
  assume "parseInt (take 1 g') = Some a"
  then show "gamePhase (attempts (gs @ [g']) s) = Won"
    using keep a
    by (simp add: attempts_append handleFinalCodeSubmit_def changeFinalCodeInput_def
        Let_def playSound_def)
qed

text \<open>
  The solved sample board with draws 4 and 7: the cell holds 68, the code is 8. The
  guess 8 wins; the empty input, 3, x and a lone minus sign do not; 81 is cut to its
  first character by the input field and wins.
\<close>

theorem final_challenge_witness:
  "gamePhase solvedSession = Placing
   \<and> correctTilesCount solvedSession = GRID_SIZE * GRID_SIZE
   \<and> wf_grid (solution solvedSession) \<and> counter_inv solvedSession
   \<and> (\<exists>r < GRID_SIZE. \<exists>c < GRID_SIZE.
        phaseEffect 4 7 solvedSession =
          Inr (solvedSession
                 \<lparr>sounds := sounds solvedSession @ [Snd_win],
                  timerRunning := False,
                  blinkingCell := Some (r, c),
                  finalCodeAnswer := Some (calculateBase (solution solvedSession ! r ! c)),
                  gamePhase := Final_challenge\<rparr>)
        \<and> holdsValue (boardState solvedSession ! r ! c) (solution solvedSession ! r ! c))
   \<and> phaseEffect 4 7 solvedSession = Inr challengeSession
   \<and> gamePhase challengeSession = Final_challenge
   \<and> finalCodeAnswer challengeSession = Some 8
   \<and> parseInt (finalCodeInput (challengeSession\<lparr>finalCodeInput := ''8''\<rparr>)) = Some 8
   \<and> gamePhase (handleFinalCodeSubmit (challengeSession\<lparr>finalCodeInput := ''8''\<rparr>)) = Won
   \<and> parseInt (finalCodeInput challengeSession) \<noteq> Some 8
   \<and> handleFinalCodeSubmit challengeSession =
       challengeSession\<lparr>sounds := sounds challengeSession @ [Snd_incorrect],
         challengeShake := True, finalCodeInput := []\<rparr>
   \<and> parseInt (take 1 ''3'') \<noteq> Some 8 \<and> parseInt (take 1 ''x'') \<noteq> Some 8
   \<and> parseInt (take 1 []) \<noteq> Some 8 \<and> parseInt (take 1 ''-'') \<noteq> Some 8
   \<and> parseInt (take 1 ''81'') = Some 8
   \<and> gamePhase (attempts [''3'', ''x'', [], ''-''] challengeSession) = Final_challenge
   \<and> gamePhase (attempts ([''3'', ''x'', [], ''-''] @ [''81'']) challengeSession) = Won"
proof -
  have p: "gamePhase solvedSession = Placing"
    "correctTilesCount solvedSession = GRID_SIZE * GRID_SIZE"
    "wf_grid (solution solvedSession)" "counter_inv solvedSession"
    by code_simp+
  have e: "phaseEffect 4 7 solvedSession = Inr challengeSession"
    by code_simp
  have q: "gamePhase challengeSession = Final_challenge"
    "finalCodeAnswer challengeSession = Some 8"
    by code_simp+
  have q8: "gamePhase (challengeSession\<lparr>finalCodeInput := ''8''\<rparr>) = Final_challenge
      \<and> finalCodeAnswer (challengeSession\<lparr>finalCodeInput := ''8''\<rparr>) = Some 8"
    using q by simp
  have i: "parseInt (finalCodeInput (challengeSession\<lparr>finalCodeInput := ''8''\<rparr>)) = Some 8"
    "parseInt (finalCodeInput challengeSession) \<noteq> Some 8"
    "\<forall>g \<in> set [''3'', ''x'', [], ''-'']. parseInt (take 1 g) \<noteq> Some 8"
    "parseInt (take 1 ''81'') = Some 8"
    by code_simp+
  note t1 = final_challenge [of solvedSession 4 7 0 "[]" "[]"]
  note t2 = final_challenge [of "challengeSession\<lparr>finalCodeInput := ''8''\<rparr>" 0 0 8 "[]" "[]"]
  note t3 = final_challenge [of challengeSession 0 0 8 "[''3'', ''x'', [], ''-'']" "''81''"]
  have c1: "\<exists>r < GRID_SIZE. \<exists>c < GRID_SIZE.
        phaseEffect 4 7 solvedSession =
          Inr (solvedSession
                 \<lparr>sounds := sounds solvedSession @ [Snd_win],
                  timerRunning := False,
                  blinkingCell := Some (r, c),
                  finalCodeAnswer := Some (calculateBase (solution solvedSession ! r ! c)),
                  gamePhase := Final_challenge\<rparr>)
        \<and> holdsValue (boardState solvedSession ! r ! c) (solution solvedSession ! r ! c)"
    using t1 p by blast
  have c2: "gamePhase (handleFinalCodeSubmit (challengeSession\<lparr>finalCodeInput := ''8''\<rparr>)) = Won"
    using t2 q8 i(1) by simp
  have c3: "handleFinalCodeSubmit challengeSession =
       challengeSession\<lparr>sounds := sounds challengeSession @ [Snd_incorrect],
         challengeShake := True, finalCodeInput := []\<rparr>"
    using t3 q i(2) by blast
  have c4: "gamePhase (attempts [''3'', ''x'', [], ''-''] challengeSession) = Final_challenge"
    "gamePhase (attempts ([''3'', ''x'', [], ''-''] @ [''81'']) challengeSession) = Won"
    using t3 q i(3) i(4) by blast+
  have i': "parseInt (take 1 ''3'') \<noteq> Some 8" "parseInt (take 1 ''x'') \<noteq> Some 8"
    "parseInt (take 1 []) \<noteq> Some 8" "parseInt (take 1 ''-'') \<noteq> Some 8"
    using i(3) by simp_all
  show ?thesis
    using p e q i(1) i(2) i(4) i' c1 c2 c3 c4 by blast
qed

subsection \<open>One container per value\<close>

text \<open>In a new game every value from 1 to 81 is once in the palette and not on the
  board.\<close>

lemma sampleSession_ownership:
  "list_all (\<lambda>v. boardCopies v (boardState sampleSession) = 0
               \<and> paletteCopies v (paletteTiles sampleSession) = 1) [1..81]"
  by code_simp

text \<open>
  C7 fails on the code. Tile 9 is placed at (3, 0). Tile 1 is picked up from the palette
  and let go outside the board, which leaves it in \<open>draggedTile\<close>. A hint then takes
  value 1 from the palette and puts it at (0, 0). The tile at (3, 0) is dragged off and
  dropped on (5, 0): the drag start returns tile 9 to the palette, and the drop places
  the tile that \<open>draggedTile\<close> still holds. Value 1 is now in two board cells.
\<close>

theorem stale_drag_duplicates_tile:
  "boardCopies 1 (boardState sampleSession) = 0
   \<and> paletteCopies 1 (paletteTiles sampleSession) = 1
   \<and> run 0 0 [DragStart tile9, Drop 3 0, DragStart tile1, Hint 0, TileReturn tile9 3 0,
         Drop 5 0] sampleSession = Inr duplicatedSession
   \<and> boardCopies 1 (boardState duplicatedSession) = 2
   \<and> paletteCopies 1 (paletteTiles duplicatedSession) = 0
   \<and> holdsValue (boardState duplicatedSession ! 0 ! 0) 1
   \<and> holdsValue (boardState duplicatedSession ! 5 ! 0) 1"
  by code_simp

subsection \<open>The counter and the correct cells\<close>

text \<open>A solution with every value once has it in one place only.\<close>

lemma solution_injective:
  assumes wf: "wf_grid sol" and d: "distinct (concat sol)"
    and rng: "r < GRID_SIZE" "c < GRID_SIZE" "r' < GRID_SIZE" "c' < GRID_SIZE"
    and eq: "sol ! r ! c = sol ! r' ! c'"
  shows "r = r' \<and> c = c'"
proof -
  have len: "length sol = GRID_SIZE" "length (sol ! r) = GRID_SIZE"
    "length (sol ! r') = GRID_SIZE"
    using wf rng by (simp_all add: wf_grid_length wf_grid_row)
  have rows: "sol ! r \<in> set sol" "sol ! r' \<in> set sol"
    using len rng by simp_all
  have "[] \<notin> set sol"
    using wf by (auto simp: wf_grid_def list_all_iff GRID_SIZE_def)
  then have dsol: "distinct sol"
    using d by (simp add: distinct_concat_iff)
  have "sol ! r ! c \<in> set (sol ! r)" "sol ! r' ! c' \<in> set (sol ! r')"
    using len rng by simp_all
  then have "set (sol ! r) \<inter> set (sol ! r') \<noteq> {}"
    using eq by auto
  then have "sol ! r = sol ! r'"
    using d rows by (auto simp: distinct_concat_iff)
  then have rr: "r = r'"
    using dsol len rng by (simp add: nth_eq_iff_index_eq)
  have "distinct (sol ! r)"
    using d rows by (simp add: distinct_concat_iff)
  then have "c = c'"
    using eq rr len rng by (simp add: nth_eq_iff_index_eq)
  with rr show ?thesis by simp
qed

lemma lockedKept_iff:
  "lockedKept b b' \<longleftrightarrow>
     (\<forall>r < GRID_SIZE. \<forall>c < GRID_SIZE. status (b ! r ! c) = Correct \<longrightarrow> b' ! r ! c = b ! r ! c)"
  by (auto simp: lockedKept_def gridPositions_def list_all_iff)

lemma lockedKept_refl: "lockedKept b b"
  by (simp add: lockedKept_iff)

lemma lockedKept_trans: "lockedKept b b1 \<Longrightarrow> lockedKept b1 b2 \<Longrightarrow> lockedKept b b2"
  by (simp add: lockedKept_iff)

lemma lockedKept_setCell:
  "r < length b \<Longrightarrow> status (b ! r ! c) \<noteq> Correct \<Longrightarrow> lockedKept b (setCell b r c x)"
  unfolding lockedKept_iff
proof (intro allI impI)
  fix r' c'
  assume "r < length b" "status (b ! r ! c) \<noteq> Correct" "status (b ! r' ! c') = Correct"
  then have "(r', c') \<noteq> (r, c)" by auto
  with \<open>r < length b\<close> show "setCell b r c x ! r' ! c' = b ! r' ! c'"
    by (rule setCell_other)
qed

text \<open>One cell that is not \<open>correct\<close> is overwritten, and the counter follows.\<close>

lemma counter_inv_update:
  assumes inv: "counter_inv s"
    and rng: "r < GRID_SIZE" "c < GRID_SIZE"
    and old: "status (boardState s ! r ! c) \<noteq> Correct"
    and new: "(status x = Correct) = holdsValue x (solution s ! r ! c)"
    and b': "boardState s' = setCell (boardState s) r c x"
    and sol': "solution s' = solution s"
    and cnt': "correctTilesCount s' = correctTilesCount s + (if status x = Correct then 1 else 0)"
  shows "counter_inv s' \<and> correctCells (boardState s) \<le> correctCells (boardState s')
     \<and> lockedKept (boardState s) (boardState s')"
proof -
  let ?b = "boardState s"
  have wf: "wf_grid ?b" and cons: "consistent s"
    and cnt: "correctTilesCount s = correctCells ?b"
    using inv by (simp_all add: counter_inv_def)
  have len: "r < length ?b" "c < length (?b ! r)"
    using wf rng by (simp_all add: wf_grid_length wf_grid_row)
  have cc: "correctCells (setCell ?b r c x) = correctCells ?b + (if status x = Correct then 1 else 0)"
    using correctCells_setCell [OF len, of x] old by simp
  have "consistent s'"
    unfolding consistent_iff
  proof (intro allI impI)
    fix r' c' assume r': "r' < GRID_SIZE" and c': "c' < GRID_SIZE"
    show "(status (boardState s' ! r' ! c') = Correct) =
        holdsValue (boardState s' ! r' ! c') (solution s' ! r' ! c')"
    proof (cases "(r', c') = (r, c)")
      case True
      then show ?thesis using len new by (simp add: b' sol' setCell_same)
    next
      case False
      then show ?thesis
        using len cons r' c' by (simp add: b' sol' setCell_other consistent_iff)
    qed
  qed
  moreover have "wf_grid (boardState s')"
    using wf by (simp add: b' wf_grid_setCell)
  moreover have "lockedKept ?b (boardState s')"
    using len old by (simp add: b' lockedKept_setCell)
  ultimately show ?thesis
    using inv cc by (simp add: counter_inv_def b' sol' cnt' cnt)
qed

lemma counter_inv_same:
  assumes "counter_inv s" and "boardState s' = boardState s" and "solution s' = solution s"
    and "correctTilesCount s' = correctTilesCount s"
  shows "counter_inv s' \<and> correctCells (boardState s) \<le> correctCells (boardState s')
     \<and> lockedKept (boardState s) (boardState s')"
  using assms by (simp add: counter_inv_def consistent_iff lockedKept_refl)

lemma cellAt_Inr_wf:
  "wf_grid b \<Longrightarrow> cellAt b r c = Inr x \<Longrightarrow> r < GRID_SIZE \<and> c < GRID_SIZE \<and> x = b ! r ! c"
  by (auto simp: cellAt_def wf_grid_length wf_grid_row split: if_splits)

text \<open>What a drop leaves behind, on 9 by 9 grids.\<close>

lemma handleDrop_outcome:
  assumes wf: "wf_grid (boardState s)" "wf_grid (solution s)"
    and res: "handleDrop row col s = Inr s'"
  shows "(boardState s' = boardState s \<and> solution s' = solution s
          \<and> correctTilesCount s' = correctTilesCount s
          \<and> gamePhase s' = gamePhase s \<and> finalCodeAnswer s' = finalCodeAnswer s)
     \<or> (\<exists>dt. gamePhase s = Placing \<and> row < GRID_SIZE \<and> col < GRID_SIZE
          \<and> tile (boardState s ! row ! col) = None
          \<and> boardState s' = setCell (boardState s) row col
               \<lparr>tile = Some dt,
                status = (if solution s ! row ! col = tile_value dt then Correct else Incorrect),
                isHint = False\<rparr>
          \<and> solution s' = solution s
          \<and> correctTilesCount s' = correctTilesCount s +
               (if solution s ! row ! col = tile_value dt then 1 else 0)
          \<and> gamePhase s' = gamePhase s \<and> finalCodeAnswer s' = finalCodeAnswer s)"
proof (cases "isUIInteractive s")
  case False
  then show ?thesis using res by (simp add: handleDrop_def)
next
  case ui: True
  show ?thesis
  proof (cases "draggedTile s")
    case None
    then show ?thesis using res ui by (simp add: handleDrop_def)
  next
    case (Some dt)
    obtain target where tgt: "cellAt (boardState s) row col = Inr target"
      using res ui Some by (cases "cellAt (boardState s) row col") (simp_all add: handleDrop_def)
    from cellAt_Inr_wf [OF wf(1) tgt]
    have rng: "row < GRID_SIZE" "col < GRID_SIZE" and t: "target = boardState s ! row ! col"
      by simp_all
    have seq: "isSequenceValid (boardState s) row col (tile_value dt) =
        Inr (spec_deltasRespected (boardState s) row col (tile_value dt))"
      using wf(1) rng by (rule isSequenceValid_wf)
    have sol: "solutionAt (solution s) row col = Inr (Some (solution s ! row ! col))"
      using wf(2) rng by (rule solutionAt_wf)
    consider (occupied) "tile target \<noteq> None"
      | (rejected) "tile target = None"
          "tile_base dt \<noteq> int col + 1
           \<or> \<not> spec_deltasRespected (boardState s) row col (tile_value dt)"
      | (accepted) "tile target = None" "tile_base dt = int col + 1"
          "spec_deltasRespected (boardState s) row col (tile_value dt)"
      by blast
    then show ?thesis
    proof cases
      case occupied
      then have "s' = s"
        using res ui Some tgt by (simp add: handleDrop_def)
      then show ?thesis by simp
    next
      case rejected
      then have "s' = playSound Snd_incorrect s"
        using res ui Some tgt by (auto simp: handleDrop_def seq split: if_splits)
      then show ?thesis by simp
    next
      case accepted
      let ?ok = "solution s ! row ! col = tile_value dt"
      have "s' = (if ?ok
          then (playSound Snd_correct
                  (s\<lparr>boardState := setCell (boardState s) row col
                         \<lparr>tile = Some dt, status = Correct, isHint = False\<rparr>,
                      paletteTiles :=
                        filter (\<lambda>t. tile_value t \<noteq> tile_value dt) (paletteTiles s)\<rparr>))
                 \<lparr>correctTilesCount := correctTilesCount s + 1, draggedTile := None\<rparr>
          else (playSound Snd_incorrect
                  (s\<lparr>boardState := setCell (boardState s) row col
                         \<lparr>tile = Some dt, status = Incorrect, isHint = False\<rparr>,
                      paletteTiles :=
                        filter (\<lambda>t. tile_value t \<noteq> tile_value dt) (paletteTiles s)\<rparr>))
                 \<lparr>draggedTile := None\<rparr>)"
        using res ui Some tgt accepted
        by (auto simp: handleDrop_def Let_def seq sol)
      then have "boardState s' = setCell (boardState s) row col
               \<lparr>tile = Some dt, status = (if ?ok then Correct else Incorrect),
                isHint = False\<rparr>
          \<and> solution s' = solution s
          \<and> correctTilesCount s' = correctTilesCount s + (if ?ok then 1 else 0)
          \<and> gamePhase s' = gamePhase s \<and> finalCodeAnswer s' = finalCodeAnswer s"
        by simp
      moreover have "gamePhase s = Placing"
        using ui by (simp add: isUIInteractive_def)
      moreover have "tile (boardState s ! row ! col) = None"
        using accepted t by simp
      ultimately show ?thesis
        using rng by blast
    qed
  qed
qed

lemma handleTileReturn_outcome:
  assumes wf: "wf_grid (boardState s)"
    and res: "handleTileReturn t r c s = Inr s'"
  shows "(boardState s' = boardState s \<and> solution s' = solution s
          \<and> correctTilesCount s' = correctTilesCount s
          \<and> gamePhase s' = gamePhase s \<and> finalCodeAnswer s' = finalCodeAnswer s)
     \<or> (gamePhase s = Placing \<and> r < GRID_SIZE \<and> c < GRID_SIZE
          \<and> status (boardState s ! r ! c) \<noteq> Correct
          \<and> boardState s' = setCell (boardState s) r c emptyCell
          \<and> solution s' = solution s
          \<and> correctTilesCount s' = correctTilesCount s
          \<and> gamePhase s' = gamePhase s \<and> finalCodeAnswer s' = finalCodeAnswer s)"
proof (cases "isUIInteractive s")
  case False
  then show ?thesis using res by (simp add: handleTileReturn_def)
next
  case ui: True
  obtain cell where tgt: "cellAt (boardState s) r c = Inr cell"
    using res ui by (cases "cellAt (boardState s) r c") (simp_all add: handleTileReturn_def)
  from cellAt_Inr_wf [OF wf tgt]
  have rng: "r < GRID_SIZE" "c < GRID_SIZE" and t: "cell = boardState s ! r ! c"
    by simp_all
  have dep: "hasDependentTile (boardState s) r c = Inr (spec_hasDependent (boardState s) r c)"
    using wf rng by (rule hasDependentTile_wf)
  consider (locked) "status cell = Correct"
    | (blocked) "status cell \<noteq> Correct" "spec_hasDependent (boardState s) r c"
    | (returned) "status cell \<noteq> Correct" "\<not> spec_hasDependent (boardState s) r c"
    by blast
  then show ?thesis
  proof cases
    case locked
    then have "s' = s"
      using res ui tgt by (simp add: handleTileReturn_def)
    then show ?thesis by simp
  next
    case blocked
    then have "s' = playSound Snd_incorrect s"
      using res ui tgt dep by (simp add: handleTileReturn_def)
    then show ?thesis by simp
  next
    case returned
    then have "s' = (playSound Snd_return s)
        \<lparr>boardState := setCell (boardState s) r c emptyCell,
         paletteTiles := paletteTiles s @ [t]\<rparr>"
      using res ui tgt dep by (simp add: handleTileReturn_def)
    then have "boardState s' = setCell (boardState s) r c emptyCell
          \<and> solution s' = solution s
          \<and> correctTilesCount s' = correctTilesCount s
          \<and> gamePhase s' = gamePhase s \<and> finalCodeAnswer s' = finalCodeAnswer s"
      by simp
    moreover have "gamePhase s = Placing"
      using ui by (simp add: isUIInteractive_def)
    ultimately show ?thesis
      using rng returned t by blast
  qed
qed

lemma handleHint_outcome:
  assumes wf: "wf_grid (boardState s)" "wf_grid (solution s)"
    and res: "handleHint k s = Inr s'"
  shows "(boardState s' = boardState s \<and> solution s' = solution s
          \<and> correctTilesCount s' = correctTilesCount s
          \<and> gamePhase s' = gamePhase s \<and> finalCodeAnswer s' = finalCodeAnswer s)
     \<or> (\<exists>hr hc. gamePhase s = Placing \<and> hr < GRID_SIZE \<and> hc < GRID_SIZE
          \<and> status (boardState s ! hr ! hc) \<noteq> Correct
          \<and> boardState s' =
               setCell
                 (case spec_firstHolder (boardState s) (solution s ! hr ! hc) of
                    None \<Rightarrow> boardState s
                  | Some (r, c) \<Rightarrow> setCell (boardState s) r c emptyCell)
                 hr hc
                 \<lparr>tile = Some \<lparr>tile_value = solution s ! hr ! hc,
                               tile_base = calculateBase (solution s ! hr ! hc)\<rparr>,
                  status = Correct, isHint = True\<rparr>
          \<and> solution s' = solution s
          \<and> correctTilesCount s' = correctTilesCount s + 1
          \<and> gamePhase s' = gamePhase s \<and> finalCodeAnswer s' = finalCodeAnswer s)"
proof -
  consider (frozen) "gamePhase s \<noteq> Placing"
    | (none) "gamePhase s = Placing" "unsolvedCells (boardState s) = []"
    | (some) "gamePhase s = Placing" "unsolvedCells (boardState s) \<noteq> []"
    by blast
  then show ?thesis
  proof cases
    case frozen
    then have "s' = s"
      using res by (simp add: handleHint_def isUIInteractive_def)
    then show ?thesis by simp
  next
    case none
    then have "s' = playSound Snd_hint s"
      using res by (simp add: handleHint_def isUIInteractive_def)
    then show ?thesis by simp
  next
    case some
    from handleHint_pick [OF some(1) wf(1) some(2), of k] obtain hr hc
      where rng: "hr < GRID_SIZE" "hc < GRID_SIZE"
        and st: "status (boardState s ! hr ! hc) \<noteq> Correct"
        and eq: "handleHint k s = placeHint hr hc (playSound Snd_hint s)"
      by blast
    let ?s0 = "playSound Snd_hint s"
    have "placeHint hr hc ?s0 = Inr s'"
      using res eq by simp
    moreover have "wf_grid (boardState ?s0)" "wf_grid (solution ?s0)"
      "status (boardState ?s0 ! hr ! hc) \<noteq> Correct"
      using wf st by simp_all
    ultimately have s': "s' = ?s0\<lparr>boardState :=
              setCell
                (case spec_firstHolder (boardState ?s0) (solution ?s0 ! hr ! hc) of
                   None \<Rightarrow> boardState ?s0
                 | Some (r, c) \<Rightarrow> setCell (boardState ?s0) r c emptyCell)
                hr hc
                \<lparr>tile = Some \<lparr>tile_value = solution ?s0 ! hr ! hc,
                              tile_base = calculateBase (solution ?s0 ! hr ! hc)\<rparr>,
                 status = Correct, isHint = True\<rparr>,
            paletteTiles :=
              (case spec_firstHolder (boardState ?s0) (solution ?s0 ! hr ! hc) of
                 None \<Rightarrow>
                   filter (\<lambda>t. tile_value t \<noteq> solution ?s0 ! hr ! hc)
                     (paletteTiles ?s0 @
                        (case tile (boardState ?s0 ! hr ! hc) of
                           None \<Rightarrow> [] | Some t \<Rightarrow> [t]))
               | Some _ \<Rightarrow>
                   paletteTiles ?s0 @
                     (case tile (boardState ?s0 ! hr ! hc) of
                        None \<Rightarrow> [] | Some t \<Rightarrow> [t])),
            correctTilesCount := correctTilesCount ?s0 + 1,
            hintsUsed := hintsUsed ?s0 + 1\<rparr>"
      using placeHint_wf [of ?s0 hr hc] rng by simp
    have "boardState s' =
               setCell
                 (case spec_firstHolder (boardState s) (solution s ! hr ! hc) of
                    None \<Rightarrow> boardState s
                  | Some (r, c) \<Rightarrow> setCell (boardState s) r c emptyCell)
                 hr hc
                 \<lparr>tile = Some \<lparr>tile_value = solution s ! hr ! hc,
                               tile_base = calculateBase (solution s ! hr ! hc)\<rparr>,
                  status = Correct, isHint = True\<rparr>
          \<and> solution s' = solution s
          \<and> correctTilesCount s' = correctTilesCount s + 1
          \<and> gamePhase s' = gamePhase s \<and> finalCodeAnswer s' = finalCodeAnswer s"
      unfolding s' by (simp cong: option.case_cong)
    then show ?thesis
      using some(1) rng st by blast
  qed
qed

text \<open>The effect touches neither grid nor the counter; it leaves the placing phase
  exactly when the counter is 81.\<close>

lemma phaseEffect_outcome:
  assumes "phaseEffect rr rc s = Inr s'"
  shows "boardState s' = boardState s \<and> solution s' = solution s
     \<and> correctTilesCount s' = correctTilesCount s
     \<and> (if gamePhase s = Placing \<and> correctTilesCount s = GRID_SIZE * GRID_SIZE
         then gamePhase s' = Final_challenge
         else gamePhase s' = gamePhase s \<and> finalCodeAnswer s' = finalCodeAnswer s)"
proof (cases "gamePhase s = Placing \<and> correctTilesCount s = GRID_SIZE * GRID_SIZE")
  case False
  then have "s' = s"
    using assms by (auto simp: phaseEffect_def)
  with False show ?thesis by simp
next
  case True
  then have pos: "correctTilesCount s > 0"
    by (simp add: GRID_SIZE_def)
  obtain sv where sv: "solutionAt (solution s) (rr mod GRID_SIZE) (rc mod GRID_SIZE) = Inr sv"
    using assms True pos
    by (cases "solutionAt (solution s) (rr mod GRID_SIZE) (rc mod GRID_SIZE)")
      (simp_all add: phaseEffect_def Let_def)
  obtain n where n: "sv = Some n"
    using assms True pos sv by (cases sv) (simp_all add: phaseEffect_def Let_def)
  have "s' = (playSound Snd_win s)
      \<lparr>timerRunning := False,
       blinkingCell := Some (rr mod GRID_SIZE, rc mod GRID_SIZE),
       finalCodeAnswer := Some (calculateBase n),
       gamePhase := Final_challenge\<rparr>"
    using assms True pos sv n by (simp add: phaseEffect_def Let_def)
  with True show ?thesis by simp
qed

lemma phaseEffect_total:
  assumes "wf_grid (solution s)"
  shows "\<exists>s'. phaseEffect rr rc s = Inr s'"
proof -
  have "rr mod GRID_SIZE < GRID_SIZE" "rc mod GRID_SIZE < GRID_SIZE"
    by (simp_all add: GRID_SIZE_def)
  then have "solutionAt (solution s) (rr mod GRID_SIZE) (rc mod GRID_SIZE) =
      Inr (Some (solution s ! (rr mod GRID_SIZE) ! (rc mod GRID_SIZE)))"
    using assms by (intro solutionAt_wf)
  then show ?thesis
    by (simp add: phaseEffect_def Let_def)
qed

lemma empty_not_correct:
  "consistent s \<Longrightarrow> r < GRID_SIZE \<Longrightarrow> c < GRID_SIZE \<Longrightarrow>
   tile (boardState s ! r ! c) = None \<Longrightarrow> status (boardState s ! r ! c) \<noteq> Correct"
  by (simp add: consistent_iff holdsValue_def)

text \<open>The cell that a hint evicts is not \<open>correct\<close>: it holds the value of another
  place of a solution that has every value once.\<close>

lemma holder_not_correct:
  assumes inv: "counter_inv s"
    and rng: "hr < GRID_SIZE" "hc < GRID_SIZE"
    and st: "status (boardState s ! hr ! hc) \<noteq> Correct"
    and holder: "spec_firstHolder (boardState s) (solution s ! hr ! hc) = Some (r, c)"
  shows "r < GRID_SIZE \<and> c < GRID_SIZE \<and> status (boardState s ! r ! c) \<noteq> Correct"
proof -
  from spec_firstHolder_Some [OF holder]
  have r: "r < GRID_SIZE" "c < GRID_SIZE"
    and h: "holdsValue (boardState s ! r ! c) (solution s ! hr ! hc)"
    by simp_all
  have "status (boardState s ! r ! c) \<noteq> Correct"
  proof
    assume "status (boardState s ! r ! c) = Correct"
    then have "holdsValue (boardState s ! r ! c) (solution s ! r ! c)"
      using inv r by (simp add: counter_inv_def consistent_iff)
    with h have "solution s ! r ! c = solution s ! hr ! hc"
      by (auto simp: holdsValue_def)
    then have "r = hr \<and> c = hc"
      using inv r rng by (intro solution_injective [of "solution s"]) (simp_all add: counter_inv_def)
    with \<open>status (boardState s ! r ! c) = Correct\<close> st show False by simp
  qed
  with r show ?thesis by simp
qed

text \<open>Every handler keeps the invariant, never lowers the number of \<open>correct\<close>
  cells and leaves every \<open>correct\<close> cell as it is.\<close>

lemma handle_counter_inv:
  assumes inv: "counter_inv s" and res: "handle e s = Inr s'"
  shows "counter_inv s' \<and> correctCells (boardState s) \<le> correctCells (boardState s')
     \<and> lockedKept (boardState s) (boardState s')"
proof -
  have wf: "wf_grid (boardState s)" "wf_grid (solution s)" and cons: "consistent s"
    using inv by (simp_all add: counter_inv_def)
  show ?thesis
  proof (cases e)
    case (DragStart t)
    then have "s' = handleDragStart t s" using res by simp
    then show ?thesis
      using inv by (intro counter_inv_same) (simp_all add: handleDragStart_def)
  next
    case (Drop row col)
    then have "handleDrop row col s = Inr s'" using res by simp
    from handleDrop_outcome [OF wf this] show ?thesis
    proof (elim disjE exE conjE)
      assume "boardState s' = boardState s" "solution s' = solution s"
        "correctTilesCount s' = correctTilesCount s"
      with inv show ?thesis by (intro counter_inv_same)
    next
      fix dt
      let ?x = "\<lparr>tile = Some dt,
          status = (if solution s ! row ! col = tile_value dt then Correct else Incorrect),
          isHint = False\<rparr>"
      assume a: "row < GRID_SIZE" "col < GRID_SIZE" "tile (boardState s ! row ! col) = None"
        "boardState s' = setCell (boardState s) row col ?x" "solution s' = solution s"
        "correctTilesCount s' = correctTilesCount s +
           (if solution s ! row ! col = tile_value dt then 1 else 0)"
      have old: "status (boardState s ! row ! col) \<noteq> Correct"
        using cons a(1-3) by (rule empty_not_correct)
      have new: "(status ?x = Correct) = holdsValue ?x (solution s ! row ! col)"
        by (auto simp: holdsValue_def)
      have cnt: "correctTilesCount s' =
          correctTilesCount s + (if status ?x = Correct then 1 else 0)"
        using a(6) by simp
      from counter_inv_update [OF inv a(1) a(2) old new a(4) a(5) cnt]
      show ?thesis .
    qed
  next
    case (TileReturn t r c)
    then have "handleTileReturn t r c s = Inr s'" using res by simp
    from handleTileReturn_outcome [OF wf(1) this] show ?thesis
    proof (elim disjE conjE)
      assume "boardState s' = boardState s" "solution s' = solution s"
        "correctTilesCount s' = correctTilesCount s"
      with inv show ?thesis by (intro counter_inv_same)
    next
      assume a: "r < GRID_SIZE" "c < GRID_SIZE" "status (boardState s ! r ! c) \<noteq> Correct"
        "boardState s' = setCell (boardState s) r c emptyCell" "solution s' = solution s"
        "correctTilesCount s' = correctTilesCount s"
      have new: "(status emptyCell = Correct) = holdsValue emptyCell (solution s ! r ! c)"
        by (simp add: emptyCell_def holdsValue_def)
      have cnt: "correctTilesCount s' =
          correctTilesCount s + (if status emptyCell = Correct then 1 else 0)"
        using a(6) by (simp add: emptyCell_def)
      from counter_inv_update [OF inv a(1) a(2) a(3) new a(4) a(5) cnt]
      show ?thesis .
    qed
  next
    case (Hint k)
    then have "handleHint k s = Inr s'" using res by simp
    from handleHint_outcome [OF wf this] show ?thesis
    proof (elim disjE exE conjE)
      assume "boardState s' = boardState s" "solution s' = solution s"
        "correctTilesCount s' = correctTilesCount s"
      with inv show ?thesis by (intro counter_inv_same)
    next
      fix hr hc
      let ?v = "solution s ! hr ! hc"
      let ?b1 = "case spec_firstHolder (boardState s) ?v of
                   None \<Rightarrow> boardState s
                 | Some (r, c) \<Rightarrow> setCell (boardState s) r c emptyCell"
      let ?x = "\<lparr>tile = Some \<lparr>tile_value = ?v, tile_base = calculateBase ?v\<rparr>,
                 status = Correct, isHint = True\<rparr>"
      assume a: "hr < GRID_SIZE" "hc < GRID_SIZE" "status (boardState s ! hr ! hc) \<noteq> Correct"
        "boardState s' = setCell ?b1 hr hc ?x" "solution s' = solution s"
        "correctTilesCount s' = correctTilesCount s + 1"
      let ?s1 = "s\<lparr>boardState := ?b1\<rparr>"
      have first: "counter_inv ?s1 \<and> correctCells (boardState s) \<le> correctCells (boardState ?s1)
          \<and> lockedKept (boardState s) (boardState ?s1)"
      proof (cases "spec_firstHolder (boardState s) ?v")
        case None
        with inv show ?thesis by (intro counter_inv_same) simp_all
      next
        case (Some p)
        obtain r c where p: "p = (r, c)" by (cases p)
        from holder_not_correct [OF inv a(1) a(2) a(3)] Some p
        have r: "r < GRID_SIZE" "c < GRID_SIZE" "status (boardState s ! r ! c) \<noteq> Correct"
          by simp_all
        have new: "(status emptyCell = Correct) = holdsValue emptyCell (solution s ! r ! c)"
          by (simp add: emptyCell_def holdsValue_def)
        show ?thesis
          using inv r new
          by (rule counter_inv_update) (simp_all add: Some p emptyCell_def)
      qed
      have old1: "status (boardState ?s1 ! hr ! hc) \<noteq> Correct"
        using evicted_target_not_correct [OF wf(1) a(1) a(2) a(3), of ?v] by simp
      have new1: "(status ?x = Correct) = holdsValue ?x (solution ?s1 ! hr ! hc)"
        by (simp add: holdsValue_def)
      have second: "counter_inv s' \<and> correctCells (boardState ?s1) \<le> correctCells (boardState s')
          \<and> lockedKept (boardState ?s1) (boardState s')"
        using first a(1) a(2) old1 new1
        by (rule counter_inv_update [OF conjunct1]) (simp_all add: a)
      from first second show ?thesis
        using lockedKept_trans le_trans by blast
    qed
  next
    case FinalCodeSubmit
    then have "s' = handleFinalCodeSubmit s" using res by simp
    then show ?thesis
      using inv by (intro counter_inv_same) (simp_all add: handleFinalCodeSubmit_def Let_def)
  next
    case (FinalCodeChange inp)
    then have "s' = changeFinalCodeInput inp s" using res by simp
    then show ?thesis
      using inv by (intro counter_inv_same) (simp_all add: changeFinalCodeInput_def)
  next
    case ShakeTimeout
    then have "s' = shakeTimeout s" using res by simp
    then show ?thesis
      using inv by (intro counter_inv_same) (simp_all add: shakeTimeout_def)
  qed
qed

lemma step_counter_inv:
  assumes inv: "counter_inv s" and res: "step rr rc e s = Inr s'"
  shows "counter_inv s' \<and> correctCells (boardState s) \<le> correctCells (boardState s')
     \<and> lockedKept (boardState s) (boardState s')"
proof -
  obtain s1 where h: "handle e s = Inr s1" and p: "phaseEffect rr rc s1 = Inr s'"
    using res by (cases "handle e s") (simp_all add: step_def)
  from handle_counter_inv [OF inv h]
  have one: "counter_inv s1" "correctCells (boardState s) \<le> correctCells (boardState s1)"
    "lockedKept (boardState s) (boardState s1)"
    by simp_all
  from phaseEffect_outcome [OF p]
  have same: "boardState s' = boardState s1" "solution s' = solution s1"
    "correctTilesCount s' = correctTilesCount s1"
    by simp_all
  from counter_inv_same [OF one(1) same] one show ?thesis
    by (simp add: same)
qed

lemma run_counter_inv:
  "counter_inv s \<Longrightarrow> run rr rc es s = Inr s' \<Longrightarrow>
   counter_inv s' \<and> correctCells (boardState s) \<le> correctCells (boardState s')
     \<and> lockedKept (boardState s) (boardState s')"
proof (induction es arbitrary: s)
  case Nil
  then show ?case by (simp add: lockedKept_refl)
next
  case (Cons e es)
  obtain s1 where st: "step rr rc e s = Inr s1" and rest: "run rr rc es s1 = Inr s'"
    using Cons.prems(2) by (cases "step rr rc e s") simp_all
  from step_counter_inv [OF Cons.prems(1) st]
  have one: "counter_inv s1" "correctCells (boardState s) \<le> correctCells (boardState s1)"
    "lockedKept (boardState s) (boardState s1)"
    by simp_all
  from Cons.IH [OF one(1) rest] one show ?case
    using lockedKept_trans le_trans by blast
qed

lemma correctCells_initializeBoard: "correctCells initializeBoard = 0"
  by (simp add: correctCells_def initializeBoard_def emptyCell_def)

lemma counter_inv_newGame:
  assumes "wf_grid sol" and "distinct (concat sol)"
  shows "counter_inv (newGame sol pal s0)"
proof -
  have "consistent (newGame sol pal s0)"
    by (simp add: consistent_iff newGame_def initializeBoard_def emptyCell_def holdsValue_def)
  then show ?thesis
    using assms
    by (simp add: counter_inv_def wf_grid_initializeBoard correctCells_initializeBoard)
      (simp add: newGame_def wf_grid_initializeBoard correctCells_initializeBoard)
qed

text \<open>
  C10. A new game on a 9 by 9 solution whose 81 values are pairwise distinct satisfies
  the counter invariant: statuses agree with the solution and the counter is the number
  of \<open>correct\<close> cells. From any session that satisfies it, after any run of events
  (drops, returns, hints and the others, each followed by the effect) the invariant holds
  again, so the counter is still the number of \<open>correct\<close> cells; that number has not
  gone down; and every cell that was \<open>correct\<close> is unchanged, so neither the eviction
  step of a hint nor anything else has emptied one.
\<close>

theorem counter_counts_correct_cells:
  "(wf_grid sol \<and> distinct (concat sol) \<longrightarrow> counter_inv (newGame sol pal s0))
   \<and> (counter_inv s \<and> run rr rc es s = Inr s' \<longrightarrow>
        counter_inv s'
        \<and> correctTilesCount s' = correctCells (boardState s')
        \<and> correctCells (boardState s) \<le> correctCells (boardState s')
        \<and> (\<forall>r < GRID_SIZE. \<forall>c < GRID_SIZE.
              status (boardState s ! r ! c) = Correct \<longrightarrow>
              boardState s' ! r ! c = boardState s ! r ! c))"
proof (intro conjI impI)
  assume "wf_grid sol \<and> distinct (concat sol)"
  then show "counter_inv (newGame sol pal s0)"
    by (simp add: counter_inv_newGame)
next
  assume a: "counter_inv s \<and> run rr rc es s = Inr s'"
  from a have r: "counter_inv s' \<and> correctCells (boardState s) \<le> correctCells (boardState s')
     \<and> lockedKept (boardState s) (boardState s')"
    using run_counter_inv [of s rr rc es s'] by simp
  show "counter_inv s'" using r by simp
  then show "correctTilesCount s' = correctCells (boardState s')"
    by (simp add: counter_inv_def)
  show "correctCells (boardState s) \<le> correctCells (boardState s')" using r by simp
  show "\<forall>r < GRID_SIZE. \<forall>c < GRID_SIZE.
              status (boardState s ! r ! c) = Correct \<longrightarrow>
              boardState s' ! r ! c = boardState s ! r ! c"
    using r by (simp add: lockedKept_iff)
qed

text \<open>The sample game: from the new game to the board with three tiles, and on through
  two hints, a refused drop and a refused return.\<close>

theorem counter_counts_correct_cells_witness:
  "wf_grid sampleSolution \<and> distinct (concat sampleSolution)
   \<and> counter_inv (newGame sampleSolution sampleTiles initialSession)
   \<and> counter_inv placedSession
   \<and> run 0 0 [Hint 0, DragStart tile2, Drop 1 0, TileReturn tile1 0 0, Hint 7]
        placedSession = Inr hintedTwiceSession
   \<and> counter_inv hintedTwiceSession
   \<and> correctTilesCount hintedTwiceSession = 3
   \<and> correctCells (boardState hintedTwiceSession) = 3
   \<and> correctCells (boardState placedSession) = 1
   \<and> status (boardState placedSession ! 0 ! 1) = Correct
   \<and> boardState hintedTwiceSession ! 0 ! 1 = boardState placedSession ! 0 ! 1"
proof -
  have d: "wf_grid sampleSolution \<and> distinct (concat sampleSolution)"
    by code_simp
  have r1: "run 0 0 [DragStart tile9, Drop 0 0, DragStart tile10, Drop 0 1, DragStart tile1,
      Drop 5 0] (newGame sampleSolution sampleTiles initialSession) = Inr placedSession"
    using placedSession_reached by (simp add: sampleSession_def)
  have r2: "run 0 0 [Hint 0, DragStart tile2, Drop 1 0, TileReturn tile1 0 0, Hint 7]
        placedSession = Inr hintedTwiceSession"
    by code_simp
  have v: "correctTilesCount hintedTwiceSession = 3"
    "correctCells (boardState placedSession) = 1"
    "status (boardState placedSession ! 0 ! 1) = Correct"
    by code_simp+
  have n: "(0::nat) < GRID_SIZE" "(1::nat) < GRID_SIZE"
    by (simp_all add: GRID_SIZE_def)
  note t0 = counter_counts_correct_cells
    [of sampleSolution sampleTiles initialSession
      "newGame sampleSolution sampleTiles initialSession" 0 0
      "[DragStart tile9, Drop 0 0, DragStart tile10, Drop 0 1, DragStart tile1, Drop 5 0]"
      placedSession]
  have i0: "counter_inv (newGame sampleSolution sampleTiles initialSession)"
    using t0 d by blast
  have i1: "counter_inv placedSession"
    using t0 i0 r1 by blast
  note t1 = counter_counts_correct_cells
    [of sampleSolution sampleTiles initialSession placedSession 0 0
      "[Hint 0, DragStart tile2, Drop 1 0, TileReturn tile1 0 0, Hint 7]" hintedTwiceSession]
  have i2: "counter_inv hintedTwiceSession"
    "correctTilesCount hintedTwiceSession = correctCells (boardState hintedTwiceSession)"
    "boardState hintedTwiceSession ! 0 ! 1 = boardState placedSession ! 0 ! 1"
    using t1 i1 r2 v(3) n by blast+
  show ?thesis
    using d i0 i1 r2 i2 v by simp
qed

subsection \<open>The counter and the phase\<close>

lemma correctCells_setCell_le:
  assumes "wf_grid b" "r < GRID_SIZE" "c < GRID_SIZE"
  shows "correctCells (setCell b r c x) \<le> correctCells b + (if status x = Correct then 1 else 0)"
proof -
  have "r < length b" "c < length (b ! r)"
    using assms by (simp_all add: wf_grid_length wf_grid_row)
  from correctCells_setCell [OF this, of x] show ?thesis
    by (simp split: if_splits)
qed

lemma evicted_correctCells_le:
  assumes "wf_grid b"
  shows "correctCells (case spec_firstHolder b v of None \<Rightarrow> b
                        | Some (r, c) \<Rightarrow> setCell b r c emptyCell) \<le> correctCells b"
proof (cases "spec_firstHolder b v")
  case None
  then show ?thesis by simp
next
  case (Some p)
  obtain r c where p: "p = (r, c)" by (cases p)
  have "r < GRID_SIZE" "c < GRID_SIZE"
    using Some p spec_firstHolder_Some by blast+
  from correctCells_setCell_le [OF assms this, of emptyCell] show ?thesis
    by (simp add: Some p emptyCell_def)
qed

lemma wf_grid_evicted:
  "wf_grid b \<Longrightarrow> wf_grid (case spec_firstHolder b v of None \<Rightarrow> b
                        | Some (r, c) \<Rightarrow> setCell b r c emptyCell)"
  by (auto simp: wf_grid_setCell split: option.splits)

text \<open>What a handler hands to the effect.\<close>

lemma handle_placing_inv:
  assumes inv: "placing_inv s" and res: "handle e s = Inr s1"
  shows "wf_grid (boardState s1) \<and> solution s1 = solution s
     \<and> correctCells (boardState s1) \<le> correctTilesCount s1
     \<and> (if gamePhase s = Placing
         then gamePhase s1 = Placing \<and> finalCodeAnswer s1 = None
              \<and> correctTilesCount s1 \<le> GRID_SIZE * GRID_SIZE
         else gamePhase s1 \<noteq> Placing \<and> correctTilesCount s1 = GRID_SIZE * GRID_SIZE)"
proof -
  have wf: "wf_grid (boardState s)" "wf_grid (solution s)"
    and le: "correctCells (boardState s) \<le> correctTilesCount s"
    and ph: "if gamePhase s = Placing
          then correctTilesCount s < GRID_SIZE * GRID_SIZE \<and> finalCodeAnswer s = None
          else correctTilesCount s = GRID_SIZE * GRID_SIZE"
    using inv by (simp_all add: placing_inv_def)
  have same: ?thesis
    if "boardState s1 = boardState s" "solution s1 = solution s"
      "correctTilesCount s1 = correctTilesCount s" "gamePhase s1 = gamePhase s"
      "finalCodeAnswer s1 = finalCodeAnswer s"
    using that wf le ph by (simp split: if_splits)
  show ?thesis
  proof (cases e)
    case (DragStart t)
    then have "s1 = handleDragStart t s" using res by simp
    then show ?thesis by (intro same) (simp_all add: handleDragStart_def)
  next
    case (Drop row col)
    then have "handleDrop row col s = Inr s1" using res by simp
    from handleDrop_outcome [OF wf this] show ?thesis
    proof (elim disjE exE conjE)
      fix dt
      let ?x = "\<lparr>tile = Some dt,
          status = (if solution s ! row ! col = tile_value dt then Correct else Incorrect),
          isHint = False\<rparr>"
      assume a: "gamePhase s = Placing" "row < GRID_SIZE" "col < GRID_SIZE"
        "boardState s1 = setCell (boardState s) row col ?x" "solution s1 = solution s"
        "correctTilesCount s1 = correctTilesCount s +
           (if solution s ! row ! col = tile_value dt then 1 else 0)"
        "gamePhase s1 = gamePhase s" "finalCodeAnswer s1 = finalCodeAnswer s"
      have "correctCells (boardState s1) \<le>
          correctCells (boardState s) + (if status ?x = Correct then 1 else 0)"
        unfolding a(4) using wf(1) a(2) a(3) by (rule correctCells_setCell_le)
      then show ?thesis
        using a wf le ph by (simp add: wf_grid_setCell split: if_splits)
    qed (rule same)
  next
    case (TileReturn t r c)
    then have "handleTileReturn t r c s = Inr s1" using res by simp
    from handleTileReturn_outcome [OF wf(1) this] show ?thesis
    proof (elim disjE conjE)
      assume a: "gamePhase s = Placing" "r < GRID_SIZE" "c < GRID_SIZE"
        "boardState s1 = setCell (boardState s) r c emptyCell" "solution s1 = solution s"
        "correctTilesCount s1 = correctTilesCount s"
        "gamePhase s1 = gamePhase s" "finalCodeAnswer s1 = finalCodeAnswer s"
      have "correctCells (boardState s1) \<le>
          correctCells (boardState s) + (if status emptyCell = Correct then 1 else 0)"
        unfolding a(4) using wf(1) a(2) a(3) by (rule correctCells_setCell_le)
      then show ?thesis
        using a wf le ph by (simp add: wf_grid_setCell emptyCell_def split: if_splits)
    qed (rule same)
  next
    case (Hint k)
    then have "handleHint k s = Inr s1" using res by simp
    from handleHint_outcome [OF wf this] show ?thesis
    proof (elim disjE exE conjE)
      fix hr hc
      let ?v = "solution s ! hr ! hc"
      let ?b1 = "case spec_firstHolder (boardState s) ?v of
                   None \<Rightarrow> boardState s
                 | Some (r, c) \<Rightarrow> setCell (boardState s) r c emptyCell"
      let ?x = "\<lparr>tile = Some \<lparr>tile_value = ?v, tile_base = calculateBase ?v\<rparr>,
                 status = Correct, isHint = True\<rparr>"
      assume a: "gamePhase s = Placing" "hr < GRID_SIZE" "hc < GRID_SIZE"
        "boardState s1 = setCell ?b1 hr hc ?x" "solution s1 = solution s"
        "correctTilesCount s1 = correctTilesCount s + 1"
        "gamePhase s1 = gamePhase s" "finalCodeAnswer s1 = finalCodeAnswer s"
      have wf1: "wf_grid ?b1"
        using wf(1) by (rule wf_grid_evicted)
      have "correctCells (boardState s1) \<le> correctCells ?b1 + (if status ?x = Correct then 1 else 0)"
        unfolding a(4) using wf1 a(2) a(3) by (rule correctCells_setCell_le)
      moreover have "correctCells ?b1 \<le> correctCells (boardState s)"
        using wf(1) by (rule evicted_correctCells_le)
      ultimately have "correctCells (boardState s1) \<le> correctCells (boardState s) + 1"
        by simp
      moreover have "wf_grid (boardState s1)"
        unfolding a(4) using wf1 by (rule wf_grid_setCell)
      ultimately show ?thesis
        using a le ph by (simp split: if_splits)
    qed (rule same)
  next
    case FinalCodeSubmit
    then have s1: "s1 = handleFinalCodeSubmit s" using res by simp
    show ?thesis
    proof (cases "gamePhase s = Placing")
      case True
      then have "finalCodeAnswer s = None" using ph by simp
      then have "s1 = s\<lparr>sounds := sounds s @ [Snd_incorrect], challengeShake := True,
          finalCodeInput := []\<rparr>"
        unfolding s1 by (intro submit_wrong) simp
      then show ?thesis by (intro same) simp_all
    next
      case False
      have "boardState s1 = boardState s \<and> solution s1 = solution s
          \<and> correctTilesCount s1 = correctTilesCount s
          \<and> (gamePhase s1 = gamePhase s \<or> gamePhase s1 = Won)"
        unfolding s1 by (simp add: handleFinalCodeSubmit_def Let_def playSound_def)
      then show ?thesis
        using False wf le ph by auto
    qed
  next
    case (FinalCodeChange inp)
    then have "s1 = changeFinalCodeInput inp s" using res by simp
    then show ?thesis by (intro same) (simp_all add: changeFinalCodeInput_def)
  next
    case ShakeTimeout
    then have "s1 = shakeTimeout s" using res by simp
    then show ?thesis by (intro same) (simp_all add: shakeTimeout_def)
  qed
qed

lemma step_placing_inv:
  assumes inv: "placing_inv s" and res: "step rr rc e s = Inr s'"
  shows "placing_inv s'
     \<and> (gamePhase s = Placing \<longrightarrow>
          gamePhase s' =
            (if correctTilesCount s' = GRID_SIZE * GRID_SIZE then Final_challenge else Placing))"
proof -
  obtain s1 where h: "handle e s = Inr s1" and p: "phaseEffect rr rc s1 = Inr s'"
    using res by (cases "handle e s") (simp_all add: step_def)
  have wfs: "wf_grid (solution s)"
    using inv by (simp add: placing_inv_def)
  from handle_placing_inv [OF inv h] phaseEffect_outcome [OF p] wfs
  show ?thesis
    by (auto simp: placing_inv_def split: if_splits)
qed

lemma hint_step_counts:
  assumes inv: "placing_inv s" and ph: "gamePhase s = Placing"
  shows "\<exists>s'. step rr rc (Hint k) s = Inr s' \<and> correctTilesCount s' = correctTilesCount s + 1"
proof -
  have wf: "wf_grid (boardState s)" "wf_grid (solution s)"
    and less: "correctCells (boardState s) < GRID_SIZE * GRID_SIZE"
    using inv ph by (simp_all add: placing_inv_def)
  have ne: "unsolvedCells (boardState s) \<noteq> []"
    using wf(1) less by (rule unsolved_exists)
  from handleHint_pick [OF ph wf(1) ne, of k] obtain hr hc
    where rng: "hr < GRID_SIZE" "hc < GRID_SIZE"
      and st: "status (boardState s ! hr ! hc) \<noteq> Correct"
      and eq: "handleHint k s = placeHint hr hc (playSound Snd_hint s)"
    by blast
  let ?s0 = "playSound Snd_hint s"
  have "wf_grid (boardState ?s0)" "wf_grid (solution ?s0)"
    "status (boardState ?s0 ! hr ! hc) \<noteq> Correct"
    using wf st by simp_all
  from placeHint_wf [OF this(1) this(2) rng this(3)]
  obtain s1 where s1: "handleHint k s = Inr s1"
    and c1: "correctTilesCount s1 = correctTilesCount s + 1"
    and sol1: "solution s1 = solution s"
    unfolding eq by simp
  from phaseEffect_total [of s1 rr rc] wf(2) sol1
  obtain s' where p: "phaseEffect rr rc s1 = Inr s'"
    by auto
  from phaseEffect_outcome [OF p] c1 have "correctTilesCount s' = correctTilesCount s + 1"
    by simp
  moreover have "step rr rc (Hint k) s = Inr s'"
    using s1 p by (simp add: step_def)
  ultimately show ?thesis by blast
qed

lemma run_placing_inv:
  "placing_inv s \<Longrightarrow> run rr rc es s = Inr s' \<Longrightarrow> placing_inv s'"
proof (induction es arbitrary: s)
  case Nil
  then show ?case by simp
next
  case (Cons e es)
  obtain s1 where st: "step rr rc e s = Inr s1" and rest: "run rr rc es s1 = Inr s'"
    using Cons.prems(2) by (cases "step rr rc e s") simp_all
  from step_placing_inv [OF Cons.prems(1) st] have "placing_inv s1" by simp
  from Cons.IH [OF this rest] show ?case .
qed

lemma run_hints_count:
  "placing_inv s \<Longrightarrow> correctTilesCount s + length ks \<le> GRID_SIZE * GRID_SIZE \<Longrightarrow>
   \<exists>s'. run rr rc (map Hint ks) s = Inr s'
        \<and> correctTilesCount s' = correctTilesCount s + length ks"
proof (induction ks arbitrary: s)
  case Nil
  then show ?case by simp
next
  case (Cons k ks)
  have "correctTilesCount s < GRID_SIZE * GRID_SIZE"
    using Cons.prems(2) by simp
  then have ph: "gamePhase s = Placing"
    using Cons.prems(1) by (auto simp: placing_inv_def split: if_splits)
  from hint_step_counts [OF Cons.prems(1) ph, of rr rc k]
  obtain s1 where st: "step rr rc (Hint k) s = Inr s1"
    and c1: "correctTilesCount s1 = correctTilesCount s + 1"
    by blast
  from step_placing_inv [OF Cons.prems(1) st] have inv1: "placing_inv s1" by simp
  have "correctTilesCount s1 + length ks \<le> GRID_SIZE * GRID_SIZE"
    using Cons.prems(2) c1 by simp
  from Cons.IH [OF inv1 this] obtain s'
    where "run rr rc (map Hint ks) s1 = Inr s'"
      and "correctTilesCount s' = correctTilesCount s1 + length ks"
    by blast
  then show ?case
    using st c1 by simp
qed

lemma placing_inv_newGame:
  "wf_grid sol \<Longrightarrow> placing_inv (newGame sol pal s0)"
  by (simp add: placing_inv_def newGame_def wf_grid_initializeBoard
      correctCells_initializeBoard) (simp add: GRID_SIZE_def)

text \<open>
  C5. A new game on a 9 by 9 solution satisfies the phase invariant, and every run of
  events keeps it. Under it: in the placing phase a hint always goes through and raises
  the counter by one; after any event taken in the placing phase, effect included, the
  phase is \<open>final_challenge\<close> if the counter is 81 and \<open>placing\<close> otherwise; after any
  run the phase is \<open>placing\<close> exactly when the counter is below 81; and \<open>n\<close> hints in
  a row raise the counter by \<open>n\<close> as long as that does not exceed 81.
\<close>

theorem hints_lead_to_final_challenge:
  "(wf_grid sol \<longrightarrow> placing_inv (newGame sol pal s0))
   \<and> (placing_inv s \<longrightarrow>
        (gamePhase s = Placing \<longrightarrow>
           (\<exists>s'. step rr rc (Hint k) s = Inr s'
                \<and> correctTilesCount s' = correctTilesCount s + 1))
      \<and> (gamePhase s = Placing \<and> step rr rc e s = Inr s1 \<longrightarrow>
           gamePhase s1 =
             (if correctTilesCount s1 = GRID_SIZE * GRID_SIZE
              then Final_challenge else Placing))
      \<and> (run rr rc es s = Inr s2 \<longrightarrow>
           placing_inv s2
           \<and> (gamePhase s2 = Placing) = (correctTilesCount s2 < GRID_SIZE * GRID_SIZE))
      \<and> (correctTilesCount s + length ks \<le> GRID_SIZE * GRID_SIZE \<longrightarrow>
           (\<exists>s'. run rr rc (map Hint ks) s = Inr s'
                \<and> correctTilesCount s' = correctTilesCount s + length ks)))"
proof (intro conjI impI)
  assume "wf_grid sol"
  then show "placing_inv (newGame sol pal s0)"
    by (rule placing_inv_newGame)
next
  assume "placing_inv s" "gamePhase s = Placing"
  then show "\<exists>s'. step rr rc (Hint k) s = Inr s'
                \<and> correctTilesCount s' = correctTilesCount s + 1"
    by (rule hint_step_counts)
next
  assume "placing_inv s" "gamePhase s = Placing \<and> step rr rc e s = Inr s1"
  then show "gamePhase s1 =
             (if correctTilesCount s1 = GRID_SIZE * GRID_SIZE
              then Final_challenge else Placing)"
    using step_placing_inv [of s rr rc e s1] by simp
next
  assume a: "placing_inv s" "run rr rc es s = Inr s2"
  then show inv2: "placing_inv s2"
    by (rule run_placing_inv)
  then show "(gamePhase s2 = Placing) = (correctTilesCount s2 < GRID_SIZE * GRID_SIZE)"
    by (auto simp: placing_inv_def split: if_splits)
next
  assume "placing_inv s" "correctTilesCount s + length ks \<le> GRID_SIZE * GRID_SIZE"
  then show "\<exists>s'. run rr rc (map Hint ks) s = Inr s'
                \<and> correctTilesCount s' = correctTilesCount s + length ks"
    by (rule run_hints_count)
qed

text \<open>The sample game: 81 hints from the new game end in \<open>final_challenge\<close> with
  the counter at 81; one hint on the board with three tiles raises the counter from 1 to
  2 and stays in \<open>placing\<close>.\<close>

theorem hints_lead_to_final_challenge_witness:
  "wf_grid sampleSolution \<and> placing_inv sampleSession
   \<and> gamePhase sampleSession = Placing
   \<and> correctTilesCount sampleSession + length (replicate 81 (0::nat)) \<le> GRID_SIZE * GRID_SIZE
   \<and> run 4 7 (map Hint (replicate 81 0)) sampleSession = Inr challengeSession
   \<and> correctTilesCount challengeSession = 81
   \<and> gamePhase challengeSession = Final_challenge
   \<and> placing_inv challengeSession
   \<and> placing_inv placedSession \<and> gamePhase placedSession = Placing
   \<and> step 0 0 (Hint 0) placedSession = Inr hintedSession
   \<and> correctTilesCount hintedSession = correctTilesCount placedSession + 1
   \<and> gamePhase hintedSession = Placing"
proof -
  have wf: "wf_grid sampleSolution"
    by (rule wf_grid_sampleSolution)
  have ph: "gamePhase sampleSession = Placing"
    "correctTilesCount sampleSession + length (replicate 81 (0::nat)) \<le> GRID_SIZE * GRID_SIZE"
    by code_simp+
  have r81: "run 4 7 (map Hint (replicate 81 0)) sampleSession = Inr challengeSession"
    by code_simp
  have r6: "run 0 0 [DragStart tile9, Drop 0 0, DragStart tile10, Drop 0 1, DragStart tile1,
      Drop 5 0] sampleSession = Inr placedSession"
    by (rule placedSession_reached)
  have st: "step 0 0 (Hint 0) placedSession = Inr hintedSession"
    by code_simp
  have v: "gamePhase placedSession = Placing" "correctTilesCount challengeSession = 81"
    "gamePhase challengeSession = Final_challenge"
    "correctTilesCount hintedSession = correctTilesCount placedSession + 1"
    "correctTilesCount hintedSession \<noteq> GRID_SIZE * GRID_SIZE"
    by code_simp+
  note t1 = hints_lead_to_final_challenge
    [of sampleSolution sampleTiles initialSession sampleSession 4 7 0 "Hint 0" sampleSession
      "map Hint (replicate 81 0)" challengeSession "replicate 81 0"]
  have i0: "placing_inv sampleSession"
    using t1 wf by (simp add: sampleSession_def)
  have i1: "placing_inv challengeSession"
    using t1 i0 r81 by blast
  note t2 = hints_lead_to_final_challenge
    [of sampleSolution sampleTiles initialSession sampleSession 0 0 0 "Hint 0" sampleSession
      "[DragStart tile9, Drop 0 0, DragStart tile10, Drop 0 1, DragStart tile1, Drop 5 0]"
      placedSession "[]"]
  have i2: "placing_inv placedSession"
    using t2 i0 r6 by blast
  note t3 = hints_lead_to_final_challenge
    [of sampleSolution sampleTiles initialSession placedSession 0 0 0 "Hint 0" hintedSession
      "[]" placedSession "[]"]
  have i3: "gamePhase hintedSession = Placing"
    using t3 i2 v(1) st v(5) by simp
  show ?thesis
    using wf i0 ph r81 v i1 i2 st i3 by simp
qed

end
